theory Spec2Isabelle
  imports Main "HOL-Library.Word"
begin

unbundle bit_operations_syntax

section \<open>tapdisk-metrics: the instrumentation hooks\<close>

subsection \<open>Data of the hot path\<close>

text \<open>
  Pointers are addresses into typed stores; a lookup that yields \<open>None\<close> is a null or
  dangling pointer, and dereferencing it is a fault (the hook returns \<open>None\<close>).
\<close>

type_synonym addr = nat

text \<open>\<^verbatim>\<open>struct timeval\<close> on LP64: \<^verbatim>\<open>time_t\<close> and \<^verbatim>\<open>suseconds_t\<close> are 64-bit.\<close>

record timeval =
  tv_sec :: "64 word"
  tv_usec :: "64 word"

text \<open>
  Modelled from the spec: \<^verbatim>\<open>struct stats\<close> is declared in tapdisk-metrics.h, which is
  not among the sources. The spec lists the ten counters and calls them fixed-width
  integers; they are taken as 64-bit, so \<open>+\<close> is the wrapping addition of C.
\<close>

record stats =
  read_reqs_submitted :: "64 word"
  write_reqs_submitted :: "64 word"
  read_reqs_merged :: "64 word"
  write_reqs_merged :: "64 word"
  read_reqs_completed :: "64 word"
  write_reqs_completed :: "64 word"
  read_sectors :: "64 word"
  write_sectors :: "64 word"
  read_total_ticks :: "64 word"
  write_total_ticks :: "64 word"

text \<open>
  \<^verbatim>\<open>stats_t\<close>: the device stats handle. The hooks follow only its \<^verbatim>\<open>stats\<close> pointer, the
  typed view of the shared region.
\<close>

record stats_t =
  shm_path :: "string option"
  stats :: addr

text \<open>\<^verbatim>\<open>struct tiocb\<close>: the submission timestamp and the back-reference to the handle.\<close>

record tiocb =
  ts :: timeval
  vdi_stats :: addr

text \<open>
  \<^verbatim>\<open>struct iocb\<close> (libaio): \<^verbatim>\<open>data\<close> points to the tiocb, \<^verbatim>\<open>aio_lio_opcode\<close> is a
  \<^verbatim>\<open>short\<close>, \<^verbatim>\<open>u.c.nbytes\<close> an \<^verbatim>\<open>unsigned long\<close>. The hooks only read an iocb, so the
  arrays of iocb pointers are lists of the records pointed to.
\<close>

record iocb =
  data :: addr
  aio_lio_opcode :: "16 word"
  nbytes :: "64 word"

record io_event =
  obj :: iocb

text \<open>The opcodes of libaio's \<^verbatim>\<open>enum io_iocb_cmd\<close>.\<close>

definition IO_CMD_PREAD :: "16 word" where
  "IO_CMD_PREAD = 0"

definition IO_CMD_PWRITE :: "16 word" where
  "IO_CMD_PWRITE = 1"

text \<open>
  Modelled from the spec: \<^verbatim>\<open>DEFAULT_SECTOR_SIZE\<close> is a macro of a header that is not
  among the sources; the spec calls it the fixed sector size and uses 512.
\<close>

definition DEFAULT_SECTOR_SIZE :: "64 word" where
  "DEFAULT_SECTOR_SIZE = 512"

text \<open>
  The memory the hooks touch, and the wall clock: \<open>clock s n\<close> is what the \<open>n\<close>-th call of
  \<^verbatim>\<open>gettimeofday\<close> returns, \<open>clock_reads\<close> counts the calls made so far.
\<close>

record heap =
  tiocbs :: "addr \<rightharpoonup> tiocb"
  handles :: "addr \<rightharpoonup> stats_t"
  regions :: "addr \<rightharpoonup> stats"
  clock :: "nat \<Rightarrow> timeval"
  clock_reads :: nat

definition gettimeofday :: "heap \<Rightarrow> timeval \<times> heap" where
  "gettimeofday s = (clock s (clock_reads s), s\<lparr>clock_reads := clock_reads s + 1\<rparr>)"

subsection \<open>td_metrics_vdi_update_submit\<close>

text \<open>The body of the loop, for one \<^verbatim>\<open>iocbs[i]\<close>.\<close>

definition update_submit_body :: "timeval \<Rightarrow> iocb \<Rightarrow> heap \<Rightarrow> heap option" where
  "update_submit_body start iocb s =
     (case tiocbs s (data iocb) of
        None \<Rightarrow> None
      | Some tiocb \<Rightarrow>
          let s1 = s\<lparr>tiocbs := (tiocbs s)(data iocb \<mapsto> tiocb\<lparr>ts := start\<rparr>)\<rparr> in
          (case handles s1 (vdi_stats tiocb) of
             None \<Rightarrow> None
           | Some vdi \<Rightarrow>
               (case regions s1 (stats vdi) of
                  None \<Rightarrow> None
                | Some st \<Rightarrow>
                    if aio_lio_opcode iocb = IO_CMD_PREAD
                    then Some (s1\<lparr>regions := (regions s1)(stats vdi \<mapsto>
                           st\<lparr>read_reqs_submitted := read_reqs_submitted st + 1\<rparr>)\<rparr>)
                    else Some (s1\<lparr>regions := (regions s1)(stats vdi \<mapsto>
                           st\<lparr>write_reqs_submitted := write_reqs_submitted st + 1\<rparr>)\<rparr>))))"

fun update_submit_loop :: "timeval \<Rightarrow> iocb list \<Rightarrow> heap \<Rightarrow> heap option" where
  "update_submit_loop start [] s = Some s"
| "update_submit_loop start (iocb # rest) s =
     (case update_submit_body start iocb s of
        None \<Rightarrow> None
      | Some s' \<Rightarrow> update_submit_loop start rest s')"

text \<open>
  \<open>iocbs\<close> is the array as allocated and \<open>nreqs\<close> the count passed with it; a count beyond
  the array reads past its end, which is a fault.
\<close>

definition td_metrics_vdi_update_submit :: "iocb list \<Rightarrow> int \<Rightarrow> heap \<Rightarrow> heap option" where
  "td_metrics_vdi_update_submit iocbs nreqs s =
     (let (start, s1) = gettimeofday s in
      if int (length iocbs) < nreqs then None
      else update_submit_loop start (take (nat nreqs) iocbs) s1)"

subsection \<open>td_metrics_vdi_update_merged\<close>

definition td_metrics_vdi_update_merged :: "iocb \<Rightarrow> heap \<Rightarrow> heap option" where
  "td_metrics_vdi_update_merged iocb s =
     (case tiocbs s (data iocb) of
        None \<Rightarrow> None
      | Some tiocb \<Rightarrow>
          (case handles s (vdi_stats tiocb) of
             None \<Rightarrow> None
           | Some vdi \<Rightarrow>
               (case regions s (stats vdi) of
                  None \<Rightarrow> None
                | Some st \<Rightarrow>
                    if aio_lio_opcode iocb = IO_CMD_PREAD
                    then Some (s\<lparr>regions := (regions s)(stats vdi \<mapsto>
                           st\<lparr>read_reqs_merged := read_reqs_merged st + 1\<rparr>)\<rparr>)
                    else Some (s\<lparr>regions := (regions s)(stats vdi \<mapsto>
                           st\<lparr>write_reqs_merged := write_reqs_merged st + 1\<rparr>)\<rparr>))))"

subsection \<open>td_metrics_vdi_update_completed\<close>

text \<open>
  The body of the loop, for one \<^verbatim>\<open>aio_events[i]\<close>; \<open>interval\<close> is a \<^verbatim>\<open>long\<close>. The handle is
  only dereferenced in the two branches.
\<close>

definition update_completed_body :: "timeval \<Rightarrow> io_event \<Rightarrow> heap \<Rightarrow> heap option" where
  "update_completed_body end_tv ev s =
     (let iocb = obj ev in
      case tiocbs s (data iocb) of
        None \<Rightarrow> None
      | Some tiocb \<Rightarrow>
          let interval = tv_usec end_tv - tv_usec (ts tiocb) in
          if aio_lio_opcode iocb = IO_CMD_PREAD then
            (case handles s (vdi_stats tiocb) of
               None \<Rightarrow> None
             | Some vdi \<Rightarrow>
                 (case regions s (stats vdi) of
                    None \<Rightarrow> None
                  | Some st \<Rightarrow> Some (s\<lparr>regions := (regions s)(stats vdi \<mapsto>
                      st\<lparr>read_reqs_completed := read_reqs_completed st + 1,
                         read_sectors := read_sectors st + nbytes iocb div DEFAULT_SECTOR_SIZE,
                         read_total_ticks := read_total_ticks st + interval\<rparr>)\<rparr>)))
          else if aio_lio_opcode iocb = IO_CMD_PWRITE then
            (case handles s (vdi_stats tiocb) of
               None \<Rightarrow> None
             | Some vdi \<Rightarrow>
                 (case regions s (stats vdi) of
                    None \<Rightarrow> None
                  | Some st \<Rightarrow> Some (s\<lparr>regions := (regions s)(stats vdi \<mapsto>
                      st\<lparr>write_reqs_completed := write_reqs_completed st + 1,
                         write_sectors := write_sectors st + nbytes iocb div DEFAULT_SECTOR_SIZE,
                         write_total_ticks := write_total_ticks st + interval\<rparr>)\<rparr>)))
          else Some s)"

fun update_completed_loop :: "timeval \<Rightarrow> io_event list \<Rightarrow> heap \<Rightarrow> heap option" where
  "update_completed_loop end_tv [] s = Some s"
| "update_completed_loop end_tv (ev # rest) s =
     (case update_completed_body end_tv ev s of
        None \<Rightarrow> None
      | Some s' \<Rightarrow> update_completed_loop end_tv rest s')"

definition td_metrics_vdi_update_completed :: "io_event list \<Rightarrow> int \<Rightarrow> heap \<Rightarrow> heap option" where
  "td_metrics_vdi_update_completed aio_events n s =
     (let (end_tv, s1) = gettimeofday s in
      if int (length aio_events) < n then None
      else update_completed_loop end_tv (take (nat n) aio_events) s1)"

subsection \<open>The calls of the I/O engine\<close>

text \<open>
  The I/O engine calls the three hooks in any order. A sequence of calls stops at the first
  fault.
\<close>

datatype hook_call =
    On_submit "iocb list" int
  | On_merge iocb
  | On_complete "io_event list" int

fun run_hook :: "hook_call \<Rightarrow> heap \<Rightarrow> heap option" where
  "run_hook (On_submit iocbs nreqs) s = td_metrics_vdi_update_submit iocbs nreqs s"
| "run_hook (On_merge iocb) s = td_metrics_vdi_update_merged iocb s"
| "run_hook (On_complete aio_events n) s = td_metrics_vdi_update_completed aio_events n s"

fun run_hooks :: "hook_call list \<Rightarrow> heap \<Rightarrow> heap option" where
  "run_hooks [] s = Some s"
| "run_hooks (c # cs) s =
     (case run_hook c s of None \<Rightarrow> None | Some s' \<Rightarrow> run_hooks cs s')"

section \<open>Vocabulary of the statements on the hooks\<close>

text \<open>
  The region an operation is accounted to: the one its tiocb's handle points to.
\<close>

definition owner :: "heap \<Rightarrow> iocb \<Rightarrow> addr option" where
  "owner s iocb =
     (case tiocbs s (data iocb) of
        None \<Rightarrow> None
      | Some tiocb \<Rightarrow> map_option stats (handles s (vdi_stats tiocb)))"

text \<open>An operation is linked when its pointers can all be followed.\<close>

definition linked :: "heap \<Rightarrow> iocb \<Rightarrow> bool" where
  "linked s iocb = (case owner s iocb of None \<Rightarrow> False | Some r \<Rightarrow> regions s r \<noteq> None)"

definition is_read :: "iocb \<Rightarrow> bool" where
  "is_read iocb = (aio_lio_opcode iocb = IO_CMD_PREAD)"

definition is_write :: "iocb \<Rightarrow> bool" where
  "is_write iocb = (aio_lio_opcode iocb = IO_CMD_PWRITE)"

text \<open>
  The number of operations of a list that are accounted to region \<open>r\<close> and satisfy \<open>P\<close>,
  the sectors they carry and the intervals the completion hook computes for them.
\<close>

definition ops_of :: "heap \<Rightarrow> addr \<Rightarrow> (iocb \<Rightarrow> bool) \<Rightarrow> iocb list \<Rightarrow> nat" where
  "ops_of s r P xs = length (filter (\<lambda>i. owner s i = Some r \<and> P i) xs)"

definition sectors_of :: "heap \<Rightarrow> addr \<Rightarrow> (iocb \<Rightarrow> bool) \<Rightarrow> iocb list \<Rightarrow> 64 word" where
  "sectors_of s r P xs =
     sum_list (map (\<lambda>i. nbytes i div DEFAULT_SECTOR_SIZE) (filter (\<lambda>i. owner s i = Some r \<and> P i) xs))"

text \<open>The same sectors as a number: the whole sectors in each byte count, added up.\<close>

definition sector_count :: "heap \<Rightarrow> addr \<Rightarrow> (iocb \<Rightarrow> bool) \<Rightarrow> iocb list \<Rightarrow> nat" where
  "sector_count s r P xs =
     sum_list (map (\<lambda>i. unat (nbytes i) div 512) (filter (\<lambda>i. owner s i = Some r \<and> P i) xs))"

definition interval_of :: "timeval \<Rightarrow> heap \<Rightarrow> iocb \<Rightarrow> 64 word" where
  "interval_of end_tv s i = tv_usec end_tv - tv_usec (ts (the (tiocbs s (data i))))"

definition ticks_of :: "timeval \<Rightarrow> heap \<Rightarrow> addr \<Rightarrow> (iocb \<Rightarrow> bool) \<Rightarrow> iocb list \<Rightarrow> 64 word" where
  "ticks_of end_tv s r P xs =
     sum_list (map (interval_of end_tv s) (filter (\<lambda>i. owner s i = Some r \<and> P i) xs))"

text \<open>What completing one operation, and a whole list of them, does to the region.\<close>

definition completed_effect :: "timeval \<Rightarrow> heap \<Rightarrow> iocb \<Rightarrow> stats \<Rightarrow> stats" where
  "completed_effect e s i st =
     (if is_read i then
        st\<lparr>read_reqs_completed := read_reqs_completed st + 1,
           read_sectors := read_sectors st + nbytes i div DEFAULT_SECTOR_SIZE,
           read_total_ticks := read_total_ticks st + interval_of e s i\<rparr>
      else if is_write i then
        st\<lparr>write_reqs_completed := write_reqs_completed st + 1,
           write_sectors := write_sectors st + nbytes i div DEFAULT_SECTOR_SIZE,
           write_total_ticks := write_total_ticks st + interval_of e s i\<rparr>
      else st)"

definition completed_total :: "timeval \<Rightarrow> heap \<Rightarrow> addr \<Rightarrow> iocb list \<Rightarrow> stats \<Rightarrow> stats" where
  "completed_total e s r xs st =
     st\<lparr>read_reqs_completed := read_reqs_completed st + of_nat (ops_of s r is_read xs),
        write_reqs_completed := write_reqs_completed st + of_nat (ops_of s r is_write xs),
        read_sectors := read_sectors st + sectors_of s r is_read xs,
        write_sectors := write_sectors st + sectors_of s r is_write xs,
        read_total_ticks := read_total_ticks st + ticks_of e s r is_read xs,
        write_total_ticks := write_total_ticks st + ticks_of e s r is_write xs\<rparr>"

text \<open>
  Two heaps have the same links when the handles and the back-references of the tiocbs
  agree; a heap keeps the regions of another when every region of the first is still mapped.
\<close>

definition same_links :: "heap \<Rightarrow> heap \<Rightarrow> bool" where
  "same_links s s' = (handles s' = handles s \<and>
     (\<forall>a. map_option vdi_stats (tiocbs s' a) = map_option vdi_stats (tiocbs s a)))"

definition keeps_regions :: "heap \<Rightarrow> heap \<Rightarrow> bool" where
  "keeps_regions s s' = (\<forall>r. regions s r \<noteq> None \<longrightarrow> regions s' r \<noteq> None)"

text \<open>The operations a call submits, merges and completes, and the calls that cannot fault.\<close>

fun submitted_ops :: "hook_call \<Rightarrow> iocb list" where
  "submitted_ops (On_submit iocbs nreqs) = take (nat nreqs) iocbs"
| "submitted_ops (On_merge iocb) = []"
| "submitted_ops (On_complete aio_events n) = []"

fun merged_ops :: "hook_call \<Rightarrow> iocb list" where
  "merged_ops (On_submit iocbs nreqs) = []"
| "merged_ops (On_merge iocb) = [iocb]"
| "merged_ops (On_complete aio_events n) = []"

fun completed_ops :: "hook_call \<Rightarrow> iocb list" where
  "completed_ops (On_submit iocbs nreqs) = []"
| "completed_ops (On_merge iocb) = []"
| "completed_ops (On_complete aio_events n) = map obj (take (nat n) aio_events)"

fun valid_call :: "heap \<Rightarrow> hook_call \<Rightarrow> bool" where
  "valid_call s (On_submit iocbs nreqs) =
     (nreqs \<le> int (length iocbs) \<and> list_all (linked s) (take (nat nreqs) iocbs))"
| "valid_call s (On_merge iocb) = linked s iocb"
| "valid_call s (On_complete aio_events n) =
     (n \<le> int (length aio_events) \<and> list_all (\<lambda>ev. linked s (obj ev)) (take (nat n) aio_events))"

text \<open>The six request counters after a sequence of calls, against the operations counted.\<close>

definition counted :: "heap \<Rightarrow> addr \<Rightarrow> hook_call list \<Rightarrow> stats \<Rightarrow> stats \<Rightarrow> bool" where
  "counted s r cs st st' =
     (read_reqs_submitted st' = read_reqs_submitted st
        + of_nat (ops_of s r is_read (concat (map submitted_ops cs))) \<and>
      write_reqs_submitted st' = write_reqs_submitted st
        + of_nat (ops_of s r (\<lambda>i. \<not> is_read i) (concat (map submitted_ops cs))) \<and>
      read_reqs_merged st' = read_reqs_merged st
        + of_nat (ops_of s r is_read (concat (map merged_ops cs))) \<and>
      write_reqs_merged st' = write_reqs_merged st
        + of_nat (ops_of s r (\<lambda>i. \<not> is_read i) (concat (map merged_ops cs))) \<and>
      read_reqs_completed st' = read_reqs_completed st
        + of_nat (ops_of s r is_read (concat (map completed_ops cs))) \<and>
      write_reqs_completed st' = write_reqs_completed st
        + of_nat (ops_of s r is_write (concat (map completed_ops cs))))"

definition counter_after :: "(stats \<Rightarrow> 64 word) \<Rightarrow> addr \<Rightarrow> heap option \<Rightarrow> 64 word option" where
  "counter_after f r res = (case res of None \<Rightarrow> None | Some s \<Rightarrow> map_option f (regions s r))"

subsection \<open>A device with three operations in flight\<close>

text \<open>
  One handle at address 2 whose region at address 3 is freshly zeroed, three tiocbs that
  refer to it, and a clock whose readings cross from second 10 into second 11. In
  \<open>stamped_heap\<close> an operation stamped at 10.960000 s awaits the reading 11.100000 s.
\<close>

definition zero_stats :: stats where
  "zero_stats = \<lparr>read_reqs_submitted = 0, write_reqs_submitted = 0, read_reqs_merged = 0,
     write_reqs_merged = 0, read_reqs_completed = 0, write_reqs_completed = 0,
     read_sectors = 0, write_sectors = 0, read_total_ticks = 0, write_total_ticks = 0\<rparr>"

definition example_clock :: "nat \<Rightarrow> timeval" where
  "example_clock n =
     (if n = 0 then \<lparr>tv_sec = 10, tv_usec = 0\<rparr>
      else if n = 1 then \<lparr>tv_sec = 10, tv_usec = 950000\<rparr>
      else if n = 2 then \<lparr>tv_sec = 10, tv_usec = 960000\<rparr>
      else \<lparr>tv_sec = 11, tv_usec = 100000\<rparr>)"

definition example_tiocb :: tiocb where
  "example_tiocb = \<lparr>ts = \<lparr>tv_sec = 0, tv_usec = 0\<rparr>, vdi_stats = 2\<rparr>"

definition example_heap :: heap where
  "example_heap =
     \<lparr>tiocbs = [10 \<mapsto> example_tiocb, 11 \<mapsto> example_tiocb, 12 \<mapsto> example_tiocb],
      handles = [2 \<mapsto> \<lparr>shm_path = Some ''/dev/shm/td3-42/vdi-7'', stats = 3\<rparr>],
      regions = [3 \<mapsto> zero_stats],
      clock = example_clock,
      clock_reads = 0\<rparr>"

definition read_a :: iocb where
  "read_a = \<lparr>data = 10, aio_lio_opcode = IO_CMD_PREAD, nbytes = 4096\<rparr>"

definition write_b :: iocb where
  "write_b = \<lparr>data = 11, aio_lio_opcode = IO_CMD_PWRITE, nbytes = 4100\<rparr>"

definition fsync_c :: iocb where
  "fsync_c = \<lparr>data = 12, aio_lio_opcode = 2, nbytes = 0\<rparr>"

definition read_d :: iocb where
  "read_d = \<lparr>data = 12, aio_lio_opcode = IO_CMD_PREAD, nbytes = 512\<rparr>"

definition stamped_heap :: heap where
  "stamped_heap = example_heap\<lparr>tiocbs :=
     [12 \<mapsto> \<lparr>ts = \<lparr>tv_sec = 10, tv_usec = 960000\<rparr>, vdi_stats = 2\<rparr>], clock_reads := 3\<rparr>"

definition late_tv :: timeval where
  "late_tv = \<lparr>tv_sec = 11, tv_usec = 100000\<rparr>"

section \<open>tapdisk-metrics: the directory manager\<close>

subsection \<open>The file system under the metrics path\<close>

text \<open>
  What the kernel holds at a path: a directory with its entries, a non-directory with the
  \<^verbatim>\<open>st_mode\<close> that \<^verbatim>\<open>stat\<close> reports for it, or an entry on which \<^verbatim>\<open>stat\<close> fails (a dangling
  symbolic link). \<open>pinned\<close> stands for every reason for which the kernel refuses to remove
  an entry (permissions, an immutable file, a mount point). The entries \<^verbatim>\<open>.\<close> and \<^verbatim>\<open>..\<close>
  that \<^verbatim>\<open>readdir\<close> also returns are not stored.
\<close>

datatype inode =
    File (st_mode: "32 word") (pinned: bool)
  | Dir (pinned: bool) (dirents: "(string \<times> inode) list")
  | Nostat (pinned: bool)

text \<open>The file type bits of \<^verbatim>\<open><sys/stat.h>\<close> (octal 0100000, 0040000, 0010000).\<close>

definition S_IFREG :: "32 word" where
  "S_IFREG = 0x8000"

definition S_IFDIR :: "32 word" where
  "S_IFDIR = 0x4000"

definition S_IFIFO :: "32 word" where
  "S_IFIFO = 0x1000"

text \<open>The values of \<^verbatim>\<open>errno\<close> that occur.\<close>

definition EPERM :: int where "EPERM = 1"
definition ENOENT :: int where "ENOENT = 2"
definition ENOMEM :: int where "ENOMEM = 12"
definition EACCES :: int where "EACCES = 13"
definition EEXIST :: int where "EEXIST = 17"
definition ENOTDIR :: int where "ENOTDIR = 20"
definition EISDIR :: int where "EISDIR = 21"
definition EMFILE :: int where "EMFILE = 24"
definition ENOTEMPTY :: int where "ENOTEMPTY = 39"

text \<open>
  The system calls that depend on the object alone: \<open>stat\<close> yields the mode, \<open>None\<close> when it
  fails; \<open>unlink\<close> and \<open>rmdir\<close> yield \<open>None\<close> when the object is removed and the \<^verbatim>\<open>errno\<close>
  otherwise.
\<close>

fun stat :: "inode \<Rightarrow> 32 word option" where
  "stat (File m p) = Some m"
| "stat (Dir p es) = Some S_IFDIR"
| "stat (Nostat p) = None"

fun unlink :: "inode \<Rightarrow> int option" where
  "unlink (Dir p es) = Some EISDIR"
| "unlink (File m p) = (if p then Some EPERM else None)"
| "unlink (Nostat p) = (if p then Some EPERM else None)"

fun rmdir :: "inode \<Rightarrow> int option" where
  "rmdir (Dir p es) = (if es \<noteq> [] then Some ENOTEMPTY else if p then Some EPERM else None)"
| "rmdir (File m p) = Some ENOTDIR"
| "rmdir (Nostat p) = Some ENOTDIR"

text \<open>
  Modelled from the spec: \<^verbatim>\<open>EPRINTF\<close> is a macro of tapdisk-log.h, which is not among the
  sources; the spec says that these failures are logged. A logged line is the message and the
  number handed to \<^verbatim>\<open>strerror\<close>.
\<close>

datatype message =
    Failed_to_open_directory
  | Failed_to_allocate_file_path
  | Failed_to_allocate_folder_path
  | Failed_to_create_folder
  | Failed_to_delete_folder

datatype log_entry = EPRINTF message int

text \<open>
  What the process cannot control: the string that \<^verbatim>\<open>TAPDISK_METRICS_PATHF\<close> and \<^verbatim>\<open>getpid\<close>
  format (the macro is in a header that is not among the sources), for which strings
  \<^verbatim>\<open>asprintf\<close> finds no memory, the indeterminate content of the uninitialised \<^verbatim>\<open>statbuf\<close> of
  each activation of \<^verbatim>\<open>empty_folder\<close>, the \<^verbatim>\<open>errno\<close> with which \<^verbatim>\<open>mkdir\<close> fails when the
  path is free but cannot be created, the \<^verbatim>\<open>errno\<close> with which \<^verbatim>\<open>opendir\<close> is refused on the
  directory at a path (\<^verbatim>\<open>EACCES\<close>, \<^verbatim>\<open>ENFILE\<close>, \<^verbatim>\<open>ENOMEM\<close>), and the number of descriptors that
  the process can still open when the directory manager is called.
\<close>

record env =
  metrics_path :: string
  enomem :: "string \<Rightarrow> bool"
  garbage :: "string \<Rightarrow> 32 word"
  mkdir_refused :: "int option"
  opendir_refused :: "string \<Rightarrow> int option"
  free_fds :: nat

definition mkdir :: "env \<Rightarrow> inode option \<Rightarrow> int + inode" where
  "mkdir env at_path =
     (case at_path of
        Some node \<Rightarrow> Inl EEXIST
      | None \<Rightarrow> (case mkdir_refused env of Some e \<Rightarrow> Inl e | None \<Rightarrow> Inr (Dir False [])))"

text \<open>
  \<open>opendir env fds path node\<close> is the call on \<open>path\<close>, which names \<open>node\<close>, while the process
  can still open \<open>fds\<close> descriptors: it yields the entries, or the \<^verbatim>\<open>errno\<close>. A directory stream
  holds a descriptor until \<^verbatim>\<open>closedir\<close>, so the call fails with \<^verbatim>\<open>EMFILE\<close> when none is left.
  \<open>opendir_absent\<close> is the \<^verbatim>\<open>errno\<close> of the call on a path that names nothing.
\<close>

fun opendir :: "env \<Rightarrow> nat \<Rightarrow> string \<Rightarrow> inode \<Rightarrow> int + (string \<times> inode) list" where
  "opendir env fds path (Dir p es) =
     (if fds = 0 then Inl EMFILE
      else case opendir_refused env path of Some e \<Rightarrow> Inl e | None \<Rightarrow> Inr es)"
| "opendir env fds path (File m p) = (if fds = 0 then Inl EMFILE else Inl ENOTDIR)"
| "opendir env fds path (Nostat p) = (if fds = 0 then Inl EMFILE else Inl ENOENT)"

definition opendir_absent :: "nat \<Rightarrow> int" where
  "opendir_absent fds = (if fds = 0 then EMFILE else ENOENT)"

subsection \<open>empty_folder\<close>

text \<open>
  \<open>empty_folder env fds path node lg\<close> is the call on \<open>path\<close>, which names \<open>node\<close>, entered
  while \<open>fds\<close> descriptors can still be opened; it returns \<open>err\<close>, what is left of \<open>node\<close> and
  the log. \<open>readdir_loop\<close> is the \<^verbatim>\<open>while\<close> loop over the entries still to come, with the
  current \<open>statbuf.st_mode\<close> and \<open>err\<close>; a failing \<^verbatim>\<open>stat\<close> leaves \<open>statbuf\<close> as it was. The
  stream \<open>dir\<close> stays open during the loop, recursive calls included, so these have one
  descriptor fewer; \<^verbatim>\<open>closedir\<close> gives it back on every way out.
\<close>

function empty_folder :: "env \<Rightarrow> nat \<Rightarrow> string \<Rightarrow> inode \<Rightarrow> log_entry list \<Rightarrow> int \<times> inode \<times> log_entry list"
  and readdir_loop :: "env \<Rightarrow> nat \<Rightarrow> string \<Rightarrow> (string \<times> inode) list \<Rightarrow> 32 word \<Rightarrow> int \<Rightarrow> log_entry list
      \<Rightarrow> int \<times> (string \<times> inode) list \<times> log_entry list"
where
  "empty_folder env fds path node lg =
     (case opendir env fds path node of
        Inl e \<Rightarrow> (e, node, lg @ [EPRINTF Failed_to_open_directory e])
      | Inr es \<Rightarrow>
          (case readdir_loop env (fds - 1) path es (garbage env path) 0 lg of
             (err, es', lg') \<Rightarrow> (err, Dir (pinned node) es', lg')))"
| "readdir_loop env fds path [] statbuf err lg = (err, [], lg)"
| "readdir_loop env fds path ((d_name, node) # rest) statbuf err lg =
     (if d_name = ''.'' \<or> d_name = ''..'' then
        (case readdir_loop env fds path rest statbuf err lg of
           (err', rest', lg') \<Rightarrow> (err', (d_name, node) # rest', lg'))
      else
        let file = path @ ''/'' @ d_name in
        if enomem env file then
          (ENOMEM, (d_name, node) # rest, lg @ [EPRINTF Failed_to_allocate_file_path ENOMEM])
        else
          let err1 = int (length file);
              statbuf1 = (case stat node of None \<Rightarrow> statbuf | Some m \<Rightarrow> m)
          in
          if statbuf1 AND S_IFREG \<noteq> 0 then
            (case unlink node of
               None \<Rightarrow> readdir_loop env fds path rest statbuf1 err1 lg
             | Some e \<Rightarrow>
                 (case readdir_loop env fds path rest statbuf1 err1 lg of
                    (err', rest', lg') \<Rightarrow> (err', (d_name, node) # rest', lg')))
          else
            (case empty_folder env fds file node lg of
               (e, node', lg1) \<Rightarrow>
                 (case rmdir node' of
                    None \<Rightarrow> readdir_loop env fds path rest statbuf1 err1 lg1
                  | Some e' \<Rightarrow>
                      (case readdir_loop env fds path rest statbuf1 err1 lg1 of
                         (err', rest', lg') \<Rightarrow> (err', (d_name, node') # rest', lg')))))"
  by pat_completeness auto
termination
  by (relation "measure (\<lambda>x. case x of
          Inl (env, fds, path, node, lg) \<Rightarrow> size node
        | Inr (env, fds, path, es, statbuf, err, lg) \<Rightarrow> size_list (size_prod (\<lambda>n. 0) size) es)")
     (auto elim: opendir.elims split: if_splits option.splits)

text \<open>The same on the metrics path itself, where there may be nothing at all.\<close>

definition empty_folder_at ::
  "env \<Rightarrow> nat \<Rightarrow> string \<Rightarrow> inode option \<Rightarrow> log_entry list
     \<Rightarrow> int \<times> inode option \<times> log_entry list" where
  "empty_folder_at env fds path at_path lg =
     (case at_path of
        None \<Rightarrow>
          (opendir_absent fds, None, lg @ [EPRINTF Failed_to_open_directory (opendir_absent fds)])
      | Some node \<Rightarrow>
          (case empty_folder env fds path node lg of
             (err, node', lg') \<Rightarrow> (err, Some node', lg')))"

definition rmdir_at :: "inode option \<Rightarrow> int option" where
  "rmdir_at at_path = (case at_path of None \<Rightarrow> Some ENOENT | Some node \<Rightarrow> rmdir node)"

subsection \<open>td_metrics_start and td_metrics_stop\<close>

text \<open>
  \<open>td_metrics_path\<close> is the static \<^verbatim>\<open>td_metrics.path\<close> (\<open>None\<close> is \<^verbatim>\<open>NULL\<close>), \<open>root\<close> what the file
  system holds at \<open>metrics_path\<close>, the only path that \<^verbatim>\<open>td_metrics.path\<close> ever names, and
  \<open>logged\<close> the lines written by \<^verbatim>\<open>EPRINTF\<close>.
\<close>

record world =
  td_metrics_path :: "string option"
  root :: "inode option"
  logged :: "log_entry list"

definition td_metrics_start :: "env \<Rightarrow> world \<Rightarrow> int \<times> world" where
  "td_metrics_start env w =
     (if enomem env (metrics_path env) then
        (ENOMEM, w\<lparr>logged := logged w @ [EPRINTF Failed_to_allocate_folder_path ENOMEM],
                   td_metrics_path := None\<rparr>)
      else
        let w1 = w\<lparr>td_metrics_path := Some (metrics_path env)\<rparr> in
        (case mkdir env (root w1) of
           Inr d \<Rightarrow> (0, w1\<lparr>root := Some d\<rparr>)
         | Inl e \<Rightarrow>
             if e = EEXIST then
               (case empty_folder_at env (free_fds env) (metrics_path env) (root w1) (logged w1) of
                  (err, r, lg) \<Rightarrow> (0, w1\<lparr>root := r, logged := lg\<rparr>))
             else
               (- 1, w1\<lparr>logged := logged w1 @ [EPRINTF Failed_to_create_folder (- 1)]\<rparr>)))"

definition td_metrics_stop :: "env \<Rightarrow> world \<Rightarrow> world" where
  "td_metrics_stop env w =
     (case td_metrics_path w of
        None \<Rightarrow> w
      | Some path \<Rightarrow>
          (case empty_folder_at env (free_fds env) path (root w) (logged w) of
             (err, r, lg) \<Rightarrow>
               (case rmdir_at r of
                  Some e \<Rightarrow> w\<lparr>root := r, logged := lg @ [EPRINTF Failed_to_delete_folder e]\<rparr>
                | None \<Rightarrow> w\<lparr>root := None, logged := lg, td_metrics_path := None\<rparr>)))"

section \<open>Vocabulary of the statements on the directory manager\<close>

definition marker :: "string \<Rightarrow> bool" where
  "marker d_name = (d_name = ''.'' \<or> d_name = ''..'')"

text \<open>
  An object is purgeable, at a path and with a number of descriptors left, when it is a
  regular file that the kernel lets go, or a directory that the kernel lets go, that
  \<^verbatim>\<open>opendir\<close> opens there, and whose entries are all purgeable with the descriptors left while
  it is open.
\<close>

function purgeable :: "env \<Rightarrow> nat \<Rightarrow> string \<Rightarrow> inode \<Rightarrow> bool"
  and purgeable_entries :: "env \<Rightarrow> nat \<Rightarrow> string \<Rightarrow> (string \<times> inode) list \<Rightarrow> bool"
where
  "purgeable env fds path (File m p) = (m AND S_IFREG \<noteq> 0 \<and> \<not> p)"
| "purgeable env fds path (Dir p es) =
     (\<not> p \<and> opendir env fds path (Dir p es) = Inr es \<and> purgeable_entries env (fds - 1) path es)"
| "purgeable env fds path (Nostat p) = False"
| "purgeable_entries env fds path [] = True"
| "purgeable_entries env fds path ((d_name, node) # rest) =
     (\<not> marker d_name \<and> purgeable env fds (path @ ''/'' @ d_name) node \<and>
      purgeable_entries env fds path rest)"
  by pat_completeness auto
termination
  by (relation "measure (\<lambda>x. case x of
          Inl (env, fds, path, node) \<Rightarrow> size node
        | Inr (env, fds, path, es) \<Rightarrow> size_list (size_prod (\<lambda>n. 0) size) es)")
     auto

text \<open>A regular file, by the test of the loop; a log line about a directory that did not open.\<close>

fun regular_file :: "inode \<Rightarrow> bool" where
  "regular_file (File m p) = (m AND S_IFREG \<noteq> 0)"
| "regular_file (Dir p es) = False"
| "regular_file (Nostat p) = False"

fun about_opendir :: "log_entry \<Rightarrow> bool" where
  "about_opendir (EPRINTF m e) = (m = Failed_to_open_directory)"

subsection \<open>A process with pid 42\<close>

text \<open>
  An environment in which every allocation succeeds, no directory is refused and 16
  descriptors are left; one with 3 descriptors left; one in which \<^verbatim>\<open>mkdir\<close> is refused with
  \<^verbatim>\<open>EACCES\<close>. A stale directory of regular files and nested directories, one that holds a
  FIFO, one whose entries fail in several ways, and a chain of eight nested directories.
\<close>

definition example_env :: env where
  "example_env = \<lparr>metrics_path = ''/dev/shm/td3-42'', enomem = (\<lambda>f. False),
     garbage = (\<lambda>f. 0), mkdir_refused = None, opendir_refused = (\<lambda>f. None), free_fds = 16\<rparr>"

definition tight_env :: env where
  "tight_env = example_env\<lparr>free_fds := 3\<rparr>"

definition refusing_env :: env where
  "refusing_env = example_env\<lparr>mkdir_refused := Some EACCES\<rparr>"

definition stale_entries :: "(string \<times> inode) list" where
  "stale_entries =
     [(''vdi-7'', File S_IFREG False),
      (''old'', Dir False [(''vbd-1-51712'', File S_IFREG False), (''deep'', Dir False [])])]"

definition stale_world :: world where
  "stale_world = \<lparr>td_metrics_path = None, root = Some (Dir False stale_entries), logged = []\<rparr>"

definition started_world :: world where
  "started_world = \<lparr>td_metrics_path = Some ''/dev/shm/td3-42'',
     root = Some (Dir False stale_entries), logged = []\<rparr>"

definition fifo_world :: world where
  "fifo_world = \<lparr>td_metrics_path = None,
     root = Some (Dir False [(''pipe'', File S_IFIFO False)]), logged = []\<rparr>"

definition fresh_world :: world where
  "fresh_world = \<lparr>td_metrics_path = None, root = None, logged = []\<rparr>"

definition mixed_entries :: "(string \<times> inode) list" where
  "mixed_entries =
     [(''a'', File S_IFREG True), (''b'', File S_IFREG False),
      (''d'', Dir False [(''x'', File S_IFREG False)]),
      (''p'', File S_IFIFO False), (''l'', Nostat False),
      (''n'', Dir False [(''o'', Dir False [(''q'', Dir False [(''z'', File S_IFREG False)])])])]"

fun chain :: "nat \<Rightarrow> inode" where
  "chain 0 = Dir False []"
| "chain (Suc n) = Dir False [(''d'', chain n)]"

definition chain_world :: world where
  "chain_world = \<lparr>td_metrics_path = None, root = Some (chain 7), logged = []\<rparr>"

section \<open>Properties of the instrumentation hooks\<close>

subsection \<open>The example device\<close>

lemma example_owner:
  "owner example_heap read_a = Some 3" "owner example_heap write_b = Some 3"
  "owner example_heap fsync_c = Some 3"
  by (simp_all add: owner_def example_heap_def example_tiocb_def read_a_def write_b_def fsync_c_def)

lemma example_linked:
  "linked example_heap read_a" "linked example_heap write_b" "linked example_heap fsync_c"
  by (simp_all add: linked_def example_owner) (simp_all add: example_heap_def)

lemma example_kinds:
  "is_read read_a" "\<not> is_write read_a" "is_write write_b" "\<not> is_read write_b"
  "\<not> is_read fsync_c" "\<not> is_write fsync_c"
  by (simp_all add: is_read_def is_write_def read_a_def write_b_def fsync_c_def
      IO_CMD_PREAD_def IO_CMD_PWRITE_def)

lemmas hook_eval =
  td_metrics_vdi_update_submit_def td_metrics_vdi_update_merged_def
  td_metrics_vdi_update_completed_def update_submit_body_def update_completed_body_def
  gettimeofday_def counter_after_def example_heap_def example_clock_def example_tiocb_def
  zero_stats_def read_a_def write_b_def fsync_c_def read_d_def IO_CMD_PREAD_def IO_CMD_PWRITE_def
  DEFAULT_SECTOR_SIZE_def Let_def

subsection \<open>Links between the stores\<close>

lemma same_links_refl: "same_links s s"
  by (simp add: same_links_def)

lemma same_links_trans: "same_links s s1 \<Longrightarrow> same_links s1 s2 \<Longrightarrow> same_links s s2"
  by (simp add: same_links_def)

lemma same_links_clock_reads: "same_links s (s\<lparr>clock_reads := n\<rparr>)"
  by (simp add: same_links_def)

lemma owner_same_links: "same_links s s' \<Longrightarrow> owner s' i = owner s i"
proof -
  assume a: "same_links s s'"
  then have "map_option vdi_stats (tiocbs s' (data i)) = map_option vdi_stats (tiocbs s (data i))"
    by (simp add: same_links_def)
  with a show ?thesis
    by (cases "tiocbs s (data i)"; cases "tiocbs s' (data i)") (auto simp: owner_def same_links_def)
qed

lemma ops_of_same_links: "same_links s s' \<Longrightarrow> ops_of s' r P xs = ops_of s r P xs"
  by (simp add: ops_of_def owner_same_links)

lemma ops_of_Nil: "ops_of s r P [] = 0"
  by (simp add: ops_of_def)

lemma ops_of_Cons:
  "ops_of s r P (i # xs) = (if owner s i = Some r \<and> P i then 1 else 0) + ops_of s r P xs"
  by (simp add: ops_of_def)

lemma ops_of_append: "ops_of s r P (xs @ ys) = ops_of s r P xs + ops_of s r P ys"
  by (simp add: ops_of_def)

lemma linked_preserved:
  "same_links s s' \<Longrightarrow> keeps_regions s s' \<Longrightarrow> linked s i \<Longrightarrow> linked s' i"
  by (auto simp: linked_def keeps_regions_def owner_same_links split: option.splits)

lemma linked_clock_reads: "linked (s\<lparr>clock_reads := n\<rparr>) i = linked s i"
  by (simp add: linked_def owner_same_links [OF same_links_clock_reads] split: option.splits)

lemma is_read_not_write: "is_read i \<Longrightarrow> \<not> is_write i"
  by (simp add: is_read_def is_write_def IO_CMD_PREAD_def IO_CMD_PWRITE_def)

subsection \<open>Submission\<close>

lemma submit_body_SomeE:
  assumes "update_submit_body start i s = Some s'"
  obtains t h st where "tiocbs s (data i) = Some t" "handles s (vdi_stats t) = Some h"
    "regions s (stats h) = Some st"
    "s' = s\<lparr>tiocbs := (tiocbs s)(data i \<mapsto> t\<lparr>ts := start\<rparr>),
            regions := (regions s)(stats h \<mapsto>
              (if aio_lio_opcode i = IO_CMD_PREAD
               then st\<lparr>read_reqs_submitted := read_reqs_submitted st + 1\<rparr>
               else st\<lparr>write_reqs_submitted := write_reqs_submitted st + 1\<rparr>))\<rparr>"
  using assms unfolding update_submit_body_def
  by (auto simp: Let_def split: option.splits if_splits)

lemma submit_body_links:
  assumes "update_submit_body start i s = Some s'"
  shows "same_links s s'" "clock s' = clock s" "clock_reads s' = clock_reads s"
  using assms by (auto elim!: submit_body_SomeE simp: same_links_def)

lemma submit_body_owner:
  assumes "update_submit_body start i s = Some s'"
  obtains r st where "owner s i = Some r" "regions s r = Some st"
    "regions s' = (regions s)(r \<mapsto>
        (if is_read i then st\<lparr>read_reqs_submitted := read_reqs_submitted st + 1\<rparr>
         else st\<lparr>write_reqs_submitted := write_reqs_submitted st + 1\<rparr>))"
  using assms by (auto elim!: submit_body_SomeE simp: owner_def is_read_def)

lemma submit_body_total:
  assumes "linked s i"
  shows "\<exists>s'. update_submit_body start i s = Some s'"
proof -
  from assms obtain t h st where "tiocbs s (data i) = Some t" "handles s (vdi_stats t) = Some h"
    "regions s (stats h) = Some st"
    by (auto simp: linked_def owner_def split: option.splits)
  then show ?thesis
    by (simp add: update_submit_body_def Let_def)
qed

lemma submit_body_keeps:
  assumes "update_submit_body start i s = Some s'"
  shows "keeps_regions s s'"
  using assms by (rule submit_body_owner) (simp add: keeps_regions_def)

lemma submit_body_stamped:
  assumes "update_submit_body start i s = Some s'"
  shows "\<exists>t. tiocbs s' (data i) = Some t \<and> ts t = start"
    and "\<And>a t. tiocbs s a = Some t \<Longrightarrow> ts t = start \<Longrightarrow> \<exists>t'. tiocbs s' a = Some t' \<and> ts t' = start"
  using assms by (auto elim!: submit_body_SomeE)

lemma submit_body_write:
  assumes "owner s i = Some r" "regions s r = Some st" "\<not> is_read i"
  shows "\<exists>s'. update_submit_body start i s = Some s' \<and>
     regions s' = (regions s)(r \<mapsto> st\<lparr>write_reqs_submitted := write_reqs_submitted st + 1\<rparr>)"
proof -
  from assms(1) obtain t h where t: "tiocbs s (data i) = Some t"
    and h: "handles s (vdi_stats t) = Some h" and r: "stats h = r"
    by (auto simp: owner_def split: option.splits)
  with assms(2,3) show ?thesis
    by (simp add: update_submit_body_def Let_def is_read_def)
qed

lemma submit_loop_links:
  "update_submit_loop start xs s = Some s' \<Longrightarrow>
     same_links s s' \<and> clock s' = clock s \<and> clock_reads s' = clock_reads s"
proof (induction xs arbitrary: s)
  case Nil
  then show ?case by (simp add: same_links_refl)
next
  case (Cons i xs)
  from Cons.prems obtain s1 where b: "update_submit_body start i s = Some s1"
    and l: "update_submit_loop start xs s1 = Some s'"
    by (auto split: option.splits)
  from Cons.IH [OF l] submit_body_links [OF b] show ?case
    by (auto intro: same_links_trans)
qed

lemma submit_loop_region:
  "update_submit_loop start xs s = Some s' \<Longrightarrow> regions s r = Some st \<Longrightarrow>
   regions s' r = Some (st\<lparr>
     read_reqs_submitted := read_reqs_submitted st + of_nat (ops_of s r is_read xs),
     write_reqs_submitted := write_reqs_submitted st + of_nat (ops_of s r (\<lambda>i. \<not> is_read i) xs)\<rparr>)"
proof (induction xs arbitrary: s st)
  case Nil
  then show ?case by (simp add: ops_of_Nil)
next
  case (Cons i xs)
  from Cons.prems obtain s1 where b: "update_submit_body start i s = Some s1"
    and l: "update_submit_loop start xs s1 = Some s'"
    by (auto split: option.splits)
  have sl: "same_links s s1" by (rule submit_body_links [OF b])
  from b obtain q sq where o: "owner s i = Some q" and q: "regions s q = Some sq"
    and r1: "regions s1 = (regions s)(q \<mapsto>
        (if is_read i then sq\<lparr>read_reqs_submitted := read_reqs_submitted sq + 1\<rparr>
         else sq\<lparr>write_reqs_submitted := write_reqs_submitted sq + 1\<rparr>))"
    by (rule submit_body_owner)
  show ?case
  proof (cases "q = r")
    case True
    with q Cons.prems(2) have sq: "sq = st" by simp
    show ?thesis
    proof (cases "is_read i")
      case True
      with r1 \<open>q = r\<close> sq
      have "regions s1 r = Some (st\<lparr>read_reqs_submitted := read_reqs_submitted st + 1\<rparr>)"
        by simp
      from Cons.IH [OF l this] o \<open>q = r\<close> True show ?thesis
        by (simp add: ops_of_Cons ops_of_same_links [OF sl] add.assoc)
    next
      case False
      with r1 \<open>q = r\<close> sq
      have "regions s1 r = Some (st\<lparr>write_reqs_submitted := write_reqs_submitted st + 1\<rparr>)"
        by simp
      from Cons.IH [OF l this] o \<open>q = r\<close> False show ?thesis
        by (simp add: ops_of_Cons ops_of_same_links [OF sl] add.assoc)
    qed
  next
    case False
    with r1 Cons.prems(2) have "regions s1 r = Some st" by simp
    from Cons.IH [OF l this] o False show ?thesis
      by (simp add: ops_of_Cons ops_of_same_links [OF sl])
  qed
qed

lemma submit_loop_keeps_stamp:
  "update_submit_loop start xs s = Some s' \<Longrightarrow> tiocbs s a = Some t \<Longrightarrow> ts t = start \<Longrightarrow>
   \<exists>t'. tiocbs s' a = Some t' \<and> ts t' = start"
proof (induction xs arbitrary: s t)
  case Nil
  then show ?case by simp
next
  case (Cons i xs)
  from Cons.prems(1) obtain s1 where b: "update_submit_body start i s = Some s1"
    and l: "update_submit_loop start xs s1 = Some s'"
    by (auto split: option.splits)
  from submit_body_stamped(2) [OF b Cons.prems(2,3)] obtain t1
    where "tiocbs s1 a = Some t1" "ts t1 = start" by blast
  then show ?case by (rule Cons.IH [OF l])
qed

lemma submit_loop_stamps:
  "update_submit_loop start xs s = Some s' \<Longrightarrow> i \<in> set xs \<Longrightarrow>
   \<exists>t. tiocbs s' (data i) = Some t \<and> ts t = start"
proof (induction xs arbitrary: s)
  case Nil
  then show ?case by simp
next
  case (Cons x xs)
  from Cons.prems(1) obtain s1 where b: "update_submit_body start x s = Some s1"
    and l: "update_submit_loop start xs s1 = Some s'"
    by (auto split: option.splits)
  show ?case
  proof (cases "i = x")
    case True
    from submit_body_stamped(1) [OF b] True obtain t1
      where "tiocbs s1 (data i) = Some t1" "ts t1 = start" by blast
    then show ?thesis by (rule submit_loop_keeps_stamp [OF l])
  next
    case False
    with Cons.prems(2) have "i \<in> set xs" by simp
    then show ?thesis by (rule Cons.IH [OF l])
  qed
qed

lemma submit_loop_total:
  "\<forall>i \<in> set xs. linked s i \<Longrightarrow> \<exists>s'. update_submit_loop start xs s = Some s'"
proof (induction xs arbitrary: s)
  case Nil
  then show ?case by simp
next
  case (Cons i xs)
  then have "linked s i" by simp
  then obtain s1 where b: "update_submit_body start i s = Some s1"
    using submit_body_total by blast
  have "\<forall>j \<in> set xs. linked s1 j"
    using Cons.prems submit_body_links(1) [OF b] submit_body_keeps [OF b]
    by (auto intro: linked_preserved)
  from Cons.IH [OF this] b show ?case by simp
qed

lemma submit_SomeE:
  assumes "td_metrics_vdi_update_submit iocbs nreqs s = Some s'"
  obtains "nreqs \<le> int (length iocbs)"
    "update_submit_loop (clock s (clock_reads s)) (take (nat nreqs) iocbs)
       (s\<lparr>clock_reads := clock_reads s + 1\<rparr>) = Some s'"
  using assms
  by (simp add: td_metrics_vdi_update_submit_def gettimeofday_def split: if_splits)

lemma submit_region:
  assumes "td_metrics_vdi_update_submit iocbs nreqs s = Some s'" "regions s r = Some st"
  shows "regions s' r = Some (st\<lparr>
     read_reqs_submitted := read_reqs_submitted st
        + of_nat (ops_of s r is_read (take (nat nreqs) iocbs)),
     write_reqs_submitted := write_reqs_submitted st
        + of_nat (ops_of s r (\<lambda>i. \<not> is_read i) (take (nat nreqs) iocbs))\<rparr>)"
proof -
  let ?s1 = "s\<lparr>clock_reads := clock_reads s + 1\<rparr>"
  from assms(1) have l: "update_submit_loop (clock s (clock_reads s)) (take (nat nreqs) iocbs) ?s1 = Some s'"
    by (rule submit_SomeE)
  from assms(2) have "regions ?s1 r = Some st" by simp
  from submit_loop_region [OF l this] show ?thesis
    by (simp add: ops_of_same_links [OF same_links_clock_reads])
qed

lemma submit_links:
  assumes "td_metrics_vdi_update_submit iocbs nreqs s = Some s'"
  shows "same_links s s'" "clock s' = clock s" "clock_reads s' = clock_reads s + 1"
proof -
  let ?s1 = "s\<lparr>clock_reads := clock_reads s + 1\<rparr>"
  from assms(1) have l: "update_submit_loop (clock s (clock_reads s)) (take (nat nreqs) iocbs) ?s1 = Some s'"
    by (rule submit_SomeE)
  from submit_loop_links [OF l] same_links_clock_reads [of s]
  show "same_links s s'" "clock s' = clock s" "clock_reads s' = clock_reads s + 1"
    by (auto intro: same_links_trans)
qed

lemma submit_total:
  assumes "nreqs \<le> int (length iocbs)" "\<forall>i \<in> set (take (nat nreqs) iocbs). linked s i"
  shows "\<exists>s'. td_metrics_vdi_update_submit iocbs nreqs s = Some s'"
proof -
  let ?s1 = "s\<lparr>clock_reads := clock_reads s + 1\<rparr>"
  from assms(2) have "\<forall>i \<in> set (take (nat nreqs) iocbs). linked ?s1 i"
    by (simp add: linked_clock_reads)
  from submit_loop_total [OF this] assms(1) show ?thesis
    by (simp add: td_metrics_vdi_update_submit_def gettimeofday_def)
qed

lemma submit_keeps:
  assumes "td_metrics_vdi_update_submit iocbs nreqs s = Some s'"
  shows "keeps_regions s s'"
  using submit_region [OF assms] by (auto simp: keeps_regions_def)

text \<open>
  Claim C8. A submission reads the clock exactly once, stamps every operation of the batch
  with that one reading, and adds to \<open>read_reqs_submitted\<close> the number of read operations
  and to \<open>write_reqs_submitted\<close> the number of the other operations accounted to each region,
  leaving the other counters as they were.
\<close>

theorem on_submit_stamps_and_counts:
  assumes "nreqs \<le> int (length iocbs)"
    and "\<forall>i \<in> set (take (nat nreqs) iocbs). linked s i"
  shows "\<exists>s'. td_metrics_vdi_update_submit iocbs nreqs s = Some s' \<and>
           clock_reads s' = clock_reads s + 1 \<and>
           (\<forall>i \<in> set (take (nat nreqs) iocbs).
              \<exists>t. tiocbs s' (data i) = Some t \<and> ts t = clock s (clock_reads s)) \<and>
           (\<forall>r st. regions s r = Some st \<longrightarrow>
              regions s' r = Some (st\<lparr>
                read_reqs_submitted := read_reqs_submitted st
                  + of_nat (ops_of s r is_read (take (nat nreqs) iocbs)),
                write_reqs_submitted := write_reqs_submitted st
                  + of_nat (ops_of s r (\<lambda>i. \<not> is_read i) (take (nat nreqs) iocbs))\<rparr>))"
proof -
  from submit_total [OF assms] obtain s'
    where s': "td_metrics_vdi_update_submit iocbs nreqs s = Some s'" by blast
  then have l: "update_submit_loop (clock s (clock_reads s)) (take (nat nreqs) iocbs)
       (s\<lparr>clock_reads := clock_reads s + 1\<rparr>) = Some s'"
    by (rule submit_SomeE)
  have "clock_reads s' = clock_reads s + 1" by (rule submit_links(3) [OF s'])
  moreover have "\<forall>i \<in> set (take (nat nreqs) iocbs).
      \<exists>t. tiocbs s' (data i) = Some t \<and> ts t = clock s (clock_reads s)"
    using submit_loop_stamps [OF l] by blast
  moreover note submit_region [OF s']
  ultimately show ?thesis using s' by blast
qed

theorem on_submit_stamps_and_counts_witness:
  "\<exists>s'. td_metrics_vdi_update_submit [read_a, write_b, fsync_c] 3 example_heap = Some s' \<and>
     clock_reads s' = 1 \<and>
     map_option ts (tiocbs s' 10) = Some \<lparr>tv_sec = 10, tv_usec = 0\<rparr> \<and>
     map_option ts (tiocbs s' 11) = Some \<lparr>tv_sec = 10, tv_usec = 0\<rparr> \<and>
     map_option ts (tiocbs s' 12) = Some \<lparr>tv_sec = 10, tv_usec = 0\<rparr> \<and>
     regions s' 3 = Some (zero_stats\<lparr>read_reqs_submitted := 1, write_reqs_submitted := 2\<rparr>)"
proof -
  have r: "regions example_heap 3 = Some zero_stats"
    and c: "clock example_heap (clock_reads example_heap) = \<lparr>tv_sec = 10, tv_usec = 0\<rparr>"
    and n: "clock_reads example_heap = 0"
    by (simp_all add: example_heap_def example_clock_def)
  have z: "read_reqs_submitted zero_stats = 0" "write_reqs_submitted zero_stats = 0"
    by (simp_all add: zero_stats_def)
  from on_submit_stamps_and_counts [of 3 "[read_a, write_b, fsync_c]" example_heap]
  obtain s' where s': "td_metrics_vdi_update_submit [read_a, write_b, fsync_c] 3 example_heap = Some s'"
    and 1: "clock_reads s' = clock_reads example_heap + 1"
    and 2: "\<forall>i \<in> set (take (nat 3) [read_a, write_b, fsync_c]).
              \<exists>t. tiocbs s' (data i) = Some t \<and> ts t = clock example_heap (clock_reads example_heap)"
    and 3: "\<forall>r st. regions example_heap r = Some st \<longrightarrow>
              regions s' r = Some (st\<lparr>
                read_reqs_submitted := read_reqs_submitted st
                  + of_nat (ops_of example_heap r is_read (take (nat 3) [read_a, write_b, fsync_c])),
                write_reqs_submitted := write_reqs_submitted st
                  + of_nat (ops_of example_heap r (\<lambda>i. \<not> is_read i) (take (nat 3) [read_a, write_b, fsync_c]))\<rparr>)"
    using example_linked by auto
  from 3 r have "regions s' 3 = Some (zero_stats\<lparr>read_reqs_submitted := 1, write_reqs_submitted := 2\<rparr>)"
    by (simp add: ops_of_def example_owner example_kinds z)
  moreover from 2 c have "map_option ts (tiocbs s' 10) = Some \<lparr>tv_sec = 10, tv_usec = 0\<rparr>"
    "map_option ts (tiocbs s' 11) = Some \<lparr>tv_sec = 10, tv_usec = 0\<rparr>"
    "map_option ts (tiocbs s' 12) = Some \<lparr>tv_sec = 10, tv_usec = 0\<rparr>"
    by (auto simp: read_a_def write_b_def fsync_c_def)
  ultimately show ?thesis using s' 1 n by simp
qed

subsection \<open>Merging\<close>

lemma merged_SomeE:
  assumes "td_metrics_vdi_update_merged i s = Some s'"
  obtains t h st where "tiocbs s (data i) = Some t" "handles s (vdi_stats t) = Some h"
    "regions s (stats h) = Some st"
    "s' = s\<lparr>regions := (regions s)(stats h \<mapsto>
              (if aio_lio_opcode i = IO_CMD_PREAD
               then st\<lparr>read_reqs_merged := read_reqs_merged st + 1\<rparr>
               else st\<lparr>write_reqs_merged := write_reqs_merged st + 1\<rparr>))\<rparr>"
  using assms unfolding td_metrics_vdi_update_merged_def
  by (auto simp: Let_def split: option.splits if_splits)

lemma merged_links:
  assumes "td_metrics_vdi_update_merged i s = Some s'"
  shows "same_links s s'" "clock s' = clock s" "clock_reads s' = clock_reads s" "tiocbs s' = tiocbs s"
  using assms by (auto elim!: merged_SomeE simp: same_links_def)

lemma merged_owner:
  assumes "td_metrics_vdi_update_merged i s = Some s'"
  obtains r st where "owner s i = Some r" "regions s r = Some st"
    "regions s' = (regions s)(r \<mapsto>
        (if is_read i then st\<lparr>read_reqs_merged := read_reqs_merged st + 1\<rparr>
         else st\<lparr>write_reqs_merged := write_reqs_merged st + 1\<rparr>))"
  using assms by (auto elim!: merged_SomeE simp: owner_def is_read_def)

lemma merged_total:
  assumes "linked s i"
  shows "\<exists>s'. td_metrics_vdi_update_merged i s = Some s'"
proof -
  from assms obtain t h st where "tiocbs s (data i) = Some t" "handles s (vdi_stats t) = Some h"
    "regions s (stats h) = Some st"
    by (auto simp: linked_def owner_def split: option.splits)
  then show ?thesis
    by (simp add: td_metrics_vdi_update_merged_def)
qed

lemma merged_keeps:
  assumes "td_metrics_vdi_update_merged i s = Some s'"
  shows "keeps_regions s s'"
  using assms by (rule merged_owner) (simp add: keeps_regions_def)

lemma merged_region:
  assumes "td_metrics_vdi_update_merged i s = Some s'" "regions s r = Some st"
  shows "regions s' r = Some (st\<lparr>
     read_reqs_merged := read_reqs_merged st + of_nat (ops_of s r is_read [i]),
     write_reqs_merged := write_reqs_merged st + of_nat (ops_of s r (\<lambda>i. \<not> is_read i) [i])\<rparr>)"
  using assms(1)
proof (rule merged_owner)
  fix q sq
  assume "owner s i = Some q" "regions s q = Some sq"
    "regions s' = (regions s)(q \<mapsto>
        (if is_read i then sq\<lparr>read_reqs_merged := read_reqs_merged sq + 1\<rparr>
         else sq\<lparr>write_reqs_merged := write_reqs_merged sq + 1\<rparr>))"
  with assms(2) show ?thesis
    by (cases "q = r") (simp_all add: ops_of_Cons ops_of_Nil)
qed

lemma merged_write:
  assumes "owner s i = Some r" "regions s r = Some st" "\<not> is_read i"
  shows "\<exists>s'. td_metrics_vdi_update_merged i s = Some s' \<and>
     regions s' = (regions s)(r \<mapsto> st\<lparr>write_reqs_merged := write_reqs_merged st + 1\<rparr>)"
proof -
  from assms(1) obtain t h where t: "tiocbs s (data i) = Some t"
    and h: "handles s (vdi_stats t) = Some h" and r: "stats h = r"
    by (auto simp: owner_def split: option.splits)
  with assms(2,3) show ?thesis
    by (simp add: td_metrics_vdi_update_merged_def is_read_def)
qed

subsection \<open>Completion\<close>

lemma completed_body_SomeE:
  assumes "update_completed_body e ev s = Some s'"
  obtains t where "tiocbs s (data (obj ev)) = Some t"
    "aio_lio_opcode (obj ev) \<noteq> IO_CMD_PREAD" "aio_lio_opcode (obj ev) \<noteq> IO_CMD_PWRITE" "s' = s"
  | t h st where "tiocbs s (data (obj ev)) = Some t" "handles s (vdi_stats t) = Some h"
    "regions s (stats h) = Some st" "aio_lio_opcode (obj ev) = IO_CMD_PREAD"
    "s' = s\<lparr>regions := (regions s)(stats h \<mapsto>
              st\<lparr>read_reqs_completed := read_reqs_completed st + 1,
                 read_sectors := read_sectors st + nbytes (obj ev) div DEFAULT_SECTOR_SIZE,
                 read_total_ticks := read_total_ticks st + (tv_usec e - tv_usec (ts t))\<rparr>)\<rparr>"
  | t h st where "tiocbs s (data (obj ev)) = Some t" "handles s (vdi_stats t) = Some h"
    "regions s (stats h) = Some st" "aio_lio_opcode (obj ev) = IO_CMD_PWRITE"
    "aio_lio_opcode (obj ev) \<noteq> IO_CMD_PREAD"
    "s' = s\<lparr>regions := (regions s)(stats h \<mapsto>
              st\<lparr>write_reqs_completed := write_reqs_completed st + 1,
                 write_sectors := write_sectors st + nbytes (obj ev) div DEFAULT_SECTOR_SIZE,
                 write_total_ticks := write_total_ticks st + (tv_usec e - tv_usec (ts t))\<rparr>)\<rparr>"
proof -
  from assms obtain t where t: "tiocbs s (data (obj ev)) = Some t"
    unfolding update_completed_body_def by (simp add: Let_def split: option.splits)
  show ?thesis
  proof (cases "aio_lio_opcode (obj ev) = IO_CMD_PREAD")
    case True
    with assms t obtain h where h: "handles s (vdi_stats t) = Some h"
      unfolding update_completed_body_def by (simp add: Let_def split: option.splits)
    with assms t True obtain st where st: "regions s (stats h) = Some st"
      unfolding update_completed_body_def by (simp add: Let_def split: option.splits)
    with assms t h True that(2) show ?thesis
      unfolding update_completed_body_def by (simp add: Let_def)
  next
    case nr: False
    show ?thesis
    proof (cases "aio_lio_opcode (obj ev) = IO_CMD_PWRITE")
      case True
      with assms t nr obtain h where h: "handles s (vdi_stats t) = Some h"
        unfolding update_completed_body_def by (simp add: Let_def split: option.splits)
      with assms t True nr obtain st where st: "regions s (stats h) = Some st"
        unfolding update_completed_body_def by (simp add: Let_def split: option.splits)
      with assms t h True nr that(3) show ?thesis
        unfolding update_completed_body_def by (simp add: Let_def)
    next
      case False
      with assms t nr have "s' = s"
        unfolding update_completed_body_def by (simp add: Let_def)
      with t nr False show ?thesis by (rule that(1))
    qed
  qed
qed

lemma completed_body_links:
  assumes "update_completed_body e ev s = Some s'"
  shows "same_links s s'" "clock s' = clock s" "clock_reads s' = clock_reads s" "tiocbs s' = tiocbs s"
  using assms by (auto elim!: completed_body_SomeE simp: same_links_def)

lemma completed_body_owner:
  assumes "update_completed_body e ev s = Some s'"
  obtains "\<not> is_read (obj ev)" "\<not> is_write (obj ev)" "s' = s"
  | r st where "owner s (obj ev) = Some r" "regions s r = Some st" "is_read (obj ev) \<or> is_write (obj ev)"
    "regions s' = (regions s)(r \<mapsto> completed_effect e s (obj ev) st)"
  using assms
proof (cases rule: completed_body_SomeE)
  case (1 t)
  then show ?thesis
    by (intro that(1)) (simp_all add: is_read_def is_write_def)
next
  case (2 t h st)
  then show ?thesis
    by (intro that(2) [of "stats h" st])
       (simp_all add: owner_def is_read_def is_write_def completed_effect_def interval_of_def)
next
  case (3 t h st)
  then show ?thesis
    by (intro that(2) [of "stats h" st])
       (simp_all add: owner_def is_read_def is_write_def completed_effect_def interval_of_def)
qed

lemma completed_body_total:
  assumes "linked s (obj ev)"
  shows "\<exists>s'. update_completed_body e ev s = Some s'"
proof -
  from assms obtain t h st where "tiocbs s (data (obj ev)) = Some t"
    "handles s (vdi_stats t) = Some h" "regions s (stats h) = Some st"
    by (auto simp: linked_def owner_def split: option.splits)
  then show ?thesis
    by (simp add: update_completed_body_def Let_def)
qed

lemma completed_body_keeps:
  assumes "update_completed_body e ev s = Some s'"
  shows "keeps_regions s s'"
  using assms by (cases rule: completed_body_owner) (simp_all add: keeps_regions_def)

lemma completed_body_ignored:
  assumes "tiocbs s (data (obj ev)) \<noteq> None" "\<not> is_read (obj ev)" "\<not> is_write (obj ev)"
  shows "update_completed_body e ev s = Some s"
proof -
  from assms(1) obtain t where "tiocbs s (data (obj ev)) = Some t" by blast
  with assms(2,3) show ?thesis
    by (simp add: update_completed_body_def Let_def is_read_def is_write_def)
qed

lemma sectors_of_Nil: "sectors_of s r P [] = 0"
  by (simp add: sectors_of_def)

lemma sectors_of_Cons:
  "sectors_of s r P (i # xs) =
     (if owner s i = Some r \<and> P i then nbytes i div DEFAULT_SECTOR_SIZE else 0) + sectors_of s r P xs"
  by (simp add: sectors_of_def)

lemma ticks_of_Nil: "ticks_of e s r P [] = 0"
  by (simp add: ticks_of_def)

lemma ticks_of_Cons:
  "ticks_of e s r P (i # xs) =
     (if owner s i = Some r \<and> P i then interval_of e s i else 0) + ticks_of e s r P xs"
  by (simp add: ticks_of_def)

lemma interval_of_same: "tiocbs s' = tiocbs s \<Longrightarrow> interval_of e s' = interval_of e s"
  by (rule ext) (simp add: interval_of_def)

lemma completed_total_Nil: "completed_total e s r [] st = st"
  by (simp add: completed_total_def ops_of_Nil sectors_of_Nil ticks_of_Nil)

lemma completed_total_Cons_other:
  "owner s i \<noteq> Some r \<or> (\<not> is_read i \<and> \<not> is_write i) \<Longrightarrow>
   completed_total e s r (i # xs) st = completed_total e s r xs st"
  by (elim disjE) (simp_all add: completed_total_def ops_of_Cons sectors_of_Cons ticks_of_Cons)

lemma completed_total_Cons_own:
  "owner s i = Some r \<Longrightarrow>
   completed_total e s r (i # xs) st = completed_total e s r xs (completed_effect e s i st)"
  by (cases "is_read i"; cases "is_write i")
     (simp_all add: completed_total_def completed_effect_def ops_of_Cons sectors_of_Cons
        ticks_of_Cons is_read_not_write add.assoc)

lemma completed_total_same:
  assumes "same_links s s'" "tiocbs s' = tiocbs s"
  shows "completed_total e s' r xs st = completed_total e s r xs st"
  by (simp add: completed_total_def ops_of_same_links [OF assms(1)] sectors_of_def ticks_of_def
      owner_same_links [OF assms(1)] interval_of_same [OF assms(2)])

lemma completed_loop_links:
  "update_completed_loop e xs s = Some s' \<Longrightarrow>
     same_links s s' \<and> clock s' = clock s \<and> clock_reads s' = clock_reads s \<and> tiocbs s' = tiocbs s"
proof (induction xs arbitrary: s)
  case Nil
  then show ?case by (simp add: same_links_refl)
next
  case (Cons ev xs)
  from Cons.prems obtain s1 where b: "update_completed_body e ev s = Some s1"
    and l: "update_completed_loop e xs s1 = Some s'"
    by (auto split: option.splits)
  from Cons.IH [OF l] completed_body_links [OF b] show ?case
    by (auto intro: same_links_trans)
qed

lemma completed_loop_region:
  "update_completed_loop e evs s = Some s' \<Longrightarrow> regions s r = Some st \<Longrightarrow>
   regions s' r = Some (completed_total e s r (map obj evs) st)"
proof (induction evs arbitrary: s st)
  case Nil
  then show ?case by (simp add: completed_total_Nil)
next
  case (Cons ev evs)
  from Cons.prems obtain s1 where b: "update_completed_body e ev s = Some s1"
    and l: "update_completed_loop e evs s1 = Some s'"
    by (auto split: option.splits)
  have sl: "same_links s s1" and tl: "tiocbs s1 = tiocbs s"
    by (rule completed_body_links [OF b])+
  note same = completed_total_same [OF sl tl]
  from b show ?case
  proof (cases rule: completed_body_owner)
    case 1
    with Cons.prems(2) have "regions s1 r = Some st" by simp
    from Cons.IH [OF l this] 1 show ?thesis
      by (simp add: same completed_total_Cons_other)
  next
    case (2 q sq)
    show ?thesis
    proof (cases "q = r")
      case True
      with 2 Cons.prems(2) have "regions s1 r = Some (completed_effect e s (obj ev) st)"
        by simp
      from Cons.IH [OF l this] 2(1) True show ?thesis
        by (simp add: same completed_total_Cons_own)
    next
      case False
      with 2 Cons.prems(2) have "regions s1 r = Some st" by simp
      from Cons.IH [OF l this] 2(1) False show ?thesis
        by (simp add: same completed_total_Cons_other)
    qed
  qed
qed

lemma completed_loop_total:
  "\<forall>ev \<in> set evs. linked s (obj ev) \<Longrightarrow> \<exists>s'. update_completed_loop e evs s = Some s'"
proof (induction evs arbitrary: s)
  case Nil
  then show ?case by simp
next
  case (Cons ev evs)
  then have "linked s (obj ev)" by simp
  then obtain s1 where b: "update_completed_body e ev s = Some s1"
    using completed_body_total by blast
  have "\<forall>j \<in> set evs. linked s1 (obj j)"
    using Cons.prems completed_body_links(1) [OF b] completed_body_keeps [OF b]
    by (auto intro: linked_preserved)
  from Cons.IH [OF this] b show ?case by simp
qed

lemma completed_loop_ignored:
  "\<forall>ev \<in> set evs. tiocbs s (data (obj ev)) \<noteq> None \<and> \<not> is_read (obj ev) \<and> \<not> is_write (obj ev) \<Longrightarrow>
   update_completed_loop e evs s = Some s"
  by (induction evs) (simp_all add: completed_body_ignored)

lemma completed_SomeE:
  assumes "td_metrics_vdi_update_completed evs n s = Some s'"
  obtains "n \<le> int (length evs)"
    "update_completed_loop (clock s (clock_reads s)) (take (nat n) evs)
       (s\<lparr>clock_reads := clock_reads s + 1\<rparr>) = Some s'"
  using assms
  by (simp add: td_metrics_vdi_update_completed_def gettimeofday_def split: if_splits)

lemma completed_links:
  assumes "td_metrics_vdi_update_completed evs n s = Some s'"
  shows "same_links s s'" "clock s' = clock s" "clock_reads s' = clock_reads s + 1"
    "tiocbs s' = tiocbs s"
proof -
  let ?s1 = "s\<lparr>clock_reads := clock_reads s + 1\<rparr>"
  from assms(1) have l: "update_completed_loop (clock s (clock_reads s)) (take (nat n) evs) ?s1 = Some s'"
    by (rule completed_SomeE)
  from completed_loop_links [OF l] same_links_clock_reads [of s]
  show "same_links s s'" "clock s' = clock s" "clock_reads s' = clock_reads s + 1"
    "tiocbs s' = tiocbs s"
    by (auto intro: same_links_trans)
qed

lemma completed_region:
  assumes "td_metrics_vdi_update_completed evs n s = Some s'" "regions s r = Some st"
  shows "regions s' r =
    Some (completed_total (clock s (clock_reads s)) s r (map obj (take (nat n) evs)) st)"
proof -
  let ?s1 = "s\<lparr>clock_reads := clock_reads s + 1\<rparr>"
  from assms(1) have l: "update_completed_loop (clock s (clock_reads s)) (take (nat n) evs) ?s1 = Some s'"
    by (rule completed_SomeE)
  from assms(2) have "regions ?s1 r = Some st" by simp
  from completed_loop_region [OF l this] show ?thesis
    by (simp add: completed_total_same [OF same_links_clock_reads])
qed

lemma completed_total_fn:
  assumes "n \<le> int (length evs)" "\<forall>ev \<in> set (take (nat n) evs). linked s (obj ev)"
  shows "\<exists>s'. td_metrics_vdi_update_completed evs n s = Some s'"
proof -
  let ?s1 = "s\<lparr>clock_reads := clock_reads s + 1\<rparr>"
  from assms(2) have "\<forall>ev \<in> set (take (nat n) evs). linked ?s1 (obj ev)"
    by (simp add: linked_clock_reads)
  from completed_loop_total [OF this] assms(1) show ?thesis
    by (simp add: td_metrics_vdi_update_completed_def gettimeofday_def)
qed

lemma completed_keeps:
  assumes "td_metrics_vdi_update_completed evs n s = Some s'"
  shows "keeps_regions s s'"
  using completed_region [OF assms] by (auto simp: keeps_regions_def)

subsection \<open>Sectors\<close>

lemma unat_plus_of_nat:
  fixes a :: "64 word"
  assumes "unat a + N < 2 ^ 64"
  shows "unat (a + of_nat N) = unat a + N"
proof -
  from assms have n: "N < 2 ^ 64" by simp
  then have u: "unat (of_nat N :: 64 word) = N"
    by (simp add: unat_of_nat)
  with assms have "unat a + unat (of_nat N :: 64 word) < 2 ^ LENGTH(64)" by simp
  then have "unat (a + of_nat N) = unat a + unat (of_nat N :: 64 word)"
    by (simp only: unat_add_lem)
  with u show ?thesis by simp
qed

lemma div_sector_size_nat:
  "(b :: 64 word) div DEFAULT_SECTOR_SIZE = of_nat (unat b div 512)"
proof -
  have "unat (b div DEFAULT_SECTOR_SIZE) = unat b div 512"
    by (simp add: DEFAULT_SECTOR_SIZE_def unat_div)
  then have "of_nat (unat (b div DEFAULT_SECTOR_SIZE)) = (of_nat (unat b div 512) :: 64 word)"
    by simp
  then show ?thesis by simp
qed

lemma sectors_of_count: "sectors_of s r P xs = of_nat (sector_count s r P xs)"
  by (induction xs) (simp_all add: sectors_of_def sector_count_def div_sector_size_nat)

lemma sector_count_single:
  assumes "owner s i = Some r" "unat (nbytes i) = N * 512 + k" "k < 512"
  shows "sector_count s r P [i] = (if P i then N else 0)"
  using assms by (simp add: sector_count_def)

text \<open>
  Claim C5. A call of the completion hook on valid pointers adds to \<open>read_sectors\<close> and
  \<open>write_sectors\<close> of each region the whole sectors of the read and of the write events
  accounted to it. For a single event with opcode read or write whose byte count is
  \<open>N * 512 + k\<close> with \<open>k < 512\<close>, the matching counter grows by exactly \<open>N\<close>, in the 64-bit
  arithmetic of the counter and, short of its wrap-around, as a number; the other sector
  counter is left alone.
\<close>

theorem on_complete_sector_accounting:
  assumes "n \<le> int (length evs)"
    and "\<forall>ev \<in> set (take (nat n) evs). linked s (obj ev)"
    and "regions s r = Some st"
  shows "\<exists>s' st'. td_metrics_vdi_update_completed evs n s = Some s' \<and>
           regions s' r = Some st' \<and>
           read_sectors st' = read_sectors st
             + of_nat (sector_count s r is_read (map obj (take (nat n) evs))) \<and>
           write_sectors st' = write_sectors st
             + of_nat (sector_count s r is_write (map obj (take (nat n) evs))) \<and>
           (\<forall>ev N k. take (nat n) evs = [ev] \<and> owner s (obj ev) = Some r \<and>
                unat (nbytes (obj ev)) = N * 512 + k \<and> k < 512 \<longrightarrow>
              (is_read (obj ev) \<longrightarrow>
                 read_sectors st' = read_sectors st + of_nat N \<and>
                 (unat (read_sectors st) + N < 2 ^ 64 \<longrightarrow>
                    unat (read_sectors st') = unat (read_sectors st) + N) \<and>
                 write_sectors st' = write_sectors st) \<and>
              (is_write (obj ev) \<longrightarrow>
                 write_sectors st' = write_sectors st + of_nat N \<and>
                 (unat (write_sectors st) + N < 2 ^ 64 \<longrightarrow>
                    unat (write_sectors st') = unat (write_sectors st) + N) \<and>
                 read_sectors st' = read_sectors st))"
proof -
  let ?ops = "map obj (take (nat n) evs)"
  from completed_total_fn [OF assms(1,2)] obtain s'
    where s': "td_metrics_vdi_update_completed evs n s = Some s'" by blast
  let ?st' = "completed_total (clock s (clock_reads s)) s r ?ops st"
  have r': "regions s' r = Some ?st'" by (rule completed_region [OF s' assms(3)])
  have rs: "read_sectors ?st' = read_sectors st + of_nat (sector_count s r is_read ?ops)"
    and ws: "write_sectors ?st' = write_sectors st + of_nat (sector_count s r is_write ?ops)"
    by (simp_all add: completed_total_def sectors_of_count)
  have single: "(is_read (obj ev) \<longrightarrow>
         read_sectors ?st' = read_sectors st + of_nat N \<and>
         (unat (read_sectors st) + N < 2 ^ 64 \<longrightarrow>
            unat (read_sectors ?st') = unat (read_sectors st) + N) \<and>
         write_sectors ?st' = write_sectors st) \<and>
      (is_write (obj ev) \<longrightarrow>
         write_sectors ?st' = write_sectors st + of_nat N \<and>
         (unat (write_sectors st) + N < 2 ^ 64 \<longrightarrow>
            unat (write_sectors ?st') = unat (write_sectors st) + N) \<and>
         read_sectors ?st' = read_sectors st)"
    if "take (nat n) evs = [ev]" "owner s (obj ev) = Some r"
      "unat (nbytes (obj ev)) = N * 512 + k" "k < 512" for ev N k
  proof -
    from that have c: "sector_count s r P ?ops = (if P (obj ev) then N else 0)" for P
      by (simp add: sector_count_single)
    show ?thesis
      using is_read_not_write [of "obj ev"]
      by (auto simp: rs ws c unat_plus_of_nat)
  qed
  from s' r' rs ws single show ?thesis by blast
qed

theorem on_complete_sector_accounting_witness:
  "(\<exists>s' st'. td_metrics_vdi_update_completed
       [\<lparr>obj = read_a\<rparr>, \<lparr>obj = write_b\<rparr>, \<lparr>obj = fsync_c\<rparr>] 3 example_heap = Some s' \<and>
      regions s' 3 = Some st' \<and> read_sectors st' = 8 \<and> write_sectors st' = 8) \<and>
   (\<exists>s' st'. td_metrics_vdi_update_completed [\<lparr>obj = write_b\<rparr>] 1 example_heap = Some s' \<and>
      regions s' 3 = Some st' \<and> write_sectors st' = 8 \<and> unat (write_sectors st') = 8 \<and>
      read_sectors st' = 0)"
proof -
  have r: "regions example_heap 3 = Some zero_stats"
    by (simp add: example_heap_def)
  have z: "read_sectors zero_stats = 0" "write_sectors zero_stats = 0"
    by (simp_all add: zero_stats_def)
  have b: "unat (nbytes (obj \<lparr>obj = write_b\<rparr>)) = 8 * 512 + 4"
    by (simp add: write_b_def)
  have c: "sector_count example_heap 3 is_read [read_a, write_b, fsync_c] = 8"
    "sector_count example_heap 3 is_write [read_a, write_b, fsync_c] = 8"
    by (simp_all add: sector_count_def example_owner example_kinds)
      (simp_all add: read_a_def write_b_def)
  from on_complete_sector_accounting
    [of 3 "[\<lparr>obj = read_a\<rparr>, \<lparr>obj = write_b\<rparr>, \<lparr>obj = fsync_c\<rparr>]" example_heap 3 zero_stats] r
  have 1: "\<exists>s' st'. td_metrics_vdi_update_completed
       [\<lparr>obj = read_a\<rparr>, \<lparr>obj = write_b\<rparr>, \<lparr>obj = fsync_c\<rparr>] 3 example_heap = Some s' \<and>
      regions s' 3 = Some st' \<and> read_sectors st' = 8 \<and> write_sectors st' = 8"
    by (simp add: example_linked c z)
  from on_complete_sector_accounting [of 1 "[\<lparr>obj = write_b\<rparr>]" example_heap 3 zero_stats] r
  obtain s' st' where s': "td_metrics_vdi_update_completed [\<lparr>obj = write_b\<rparr>] 1 example_heap = Some s'"
    and r': "regions s' 3 = Some st'"
    and all: "\<forall>ev N k. take (nat 1) [\<lparr>obj = write_b\<rparr>] = [ev] \<and> owner example_heap (obj ev) = Some 3 \<and>
                unat (nbytes (obj ev)) = N * 512 + k \<and> k < 512 \<longrightarrow>
              (is_read (obj ev) \<longrightarrow>
                 read_sectors st' = read_sectors zero_stats + of_nat N \<and>
                 (unat (read_sectors zero_stats) + N < 2 ^ 64 \<longrightarrow>
                    unat (read_sectors st') = unat (read_sectors zero_stats) + N) \<and>
                 write_sectors st' = write_sectors zero_stats) \<and>
              (is_write (obj ev) \<longrightarrow>
                 write_sectors st' = write_sectors zero_stats + of_nat N \<and>
                 (unat (write_sectors zero_stats) + N < 2 ^ 64 \<longrightarrow>
                    unat (write_sectors st') = unat (write_sectors zero_stats) + N) \<and>
                 read_sectors st' = read_sectors zero_stats)"
    by (auto simp: example_linked)
  from all [rule_format, of "\<lparr>obj = write_b\<rparr>" 8 4] b
  have "write_sectors st' = 8 \<and> unat (write_sectors st') = 8 \<and> read_sectors st' = 0"
    by (simp add: example_owner example_kinds z)
  with s' r' 1 show ?thesis by blast
qed

subsection \<open>Ticks\<close>

lemma two_63: "(2::int) ^ 63 = 9223372036854775808"
  by simp

lemma sint_small:
  fixes a :: "64 word"
  assumes "uint a < 1000000"
  shows "sint a = uint a"
proof -
  have 0: "0 \<le> uint a" by simp
  have "sint a = signed_take_bit 63 (uint a)" by (simp add: sint_uint)
  also have "\<dots> = uint a"
  proof (rule signed_take_bit_int_eq_self)
    show "- (2 ^ 63) \<le> uint a" using 0 unfolding two_63 by linarith
    show "uint a < 2 ^ 63" using assms unfolding two_63 by linarith
  qed
  finally show ?thesis .
qed

lemma sint_usec_diff:
  fixes a b :: "64 word"
  assumes "a < b" "b < 1000000"
  shows "sint (a - b) = uint a - uint b" "sint (a - b) < 0"
proof -
  from assms have ua: "uint a < uint b" and ub: "uint b < 1000000"
    by (simp_all add: word_less_def)
  have 0: "0 \<le> uint a" "0 \<le> uint b" by simp_all
  have "sint a = uint a" "sint b = uint b"
    using ua ub by (simp_all add: sint_small)
  then have "sint (a - b) = signed_take_bit 63 (uint a - uint b)"
    by (simp add: sint_word_ariths)
  also have "\<dots> = uint a - uint b"
  proof (rule signed_take_bit_int_eq_self)
    show "- (2 ^ 63) \<le> uint a - uint b" using 0 ua ub unfolding two_63 by linarith
    show "uint a - uint b < 2 ^ 63" using 0 ua ub unfolding two_63 by linarith
  qed
  finally show "sint (a - b) = uint a - uint b" .
  with ua show "sint (a - b) < 0" by simp
qed

lemma ticks_of_single:
  assumes "owner s i = Some r" "tiocbs s (data i) = Some t"
  shows "ticks_of e s r P [i] = (if P i then tv_usec e - tv_usec (ts t) else 0)"
  using assms by (simp add: ticks_of_def interval_of_def)

text \<open>
  Claim C7. A call of the completion hook on valid pointers reads the clock once and adds to
  \<open>read_total_ticks\<close> and \<open>write_total_ticks\<close> of each region, for every read and write
  event accounted to it, the \<open>tv_usec\<close> of that reading less the \<open>tv_usec\<close> of the
  operation's stamp; \<open>tv_sec\<close> is not consulted. For a single event the amount added, read as
  a \<^verbatim>\<open>long\<close>, is negative whenever the reading's microseconds are below the stamp's, as
  happens when the two timestamps straddle a second boundary.
\<close>

theorem on_complete_usec_interval:
  assumes "n \<le> int (length evs)"
    and "\<forall>ev \<in> set (take (nat n) evs). linked s (obj ev)"
    and "regions s r = Some st"
  shows "\<exists>s' st'. td_metrics_vdi_update_completed evs n s = Some s' \<and>
           clock_reads s' = clock_reads s + 1 \<and> regions s' r = Some st' \<and>
           read_total_ticks st' = read_total_ticks st
             + ticks_of (clock s (clock_reads s)) s r is_read (map obj (take (nat n) evs)) \<and>
           write_total_ticks st' = write_total_ticks st
             + ticks_of (clock s (clock_reads s)) s r is_write (map obj (take (nat n) evs)) \<and>
           (\<forall>ev t. take (nat n) evs = [ev] \<and> owner s (obj ev) = Some r \<and>
                tiocbs s (data (obj ev)) = Some t \<longrightarrow>
              (is_read (obj ev) \<longrightarrow>
                 read_total_ticks st' = read_total_ticks st
                   + (tv_usec (clock s (clock_reads s)) - tv_usec (ts t)) \<and>
                 (tv_usec (clock s (clock_reads s)) < tv_usec (ts t) \<and>
                  tv_usec (ts t) < 1000000 \<longrightarrow>
                    sint (read_total_ticks st' - read_total_ticks st) < 0)) \<and>
              (is_write (obj ev) \<longrightarrow>
                 write_total_ticks st' = write_total_ticks st
                   + (tv_usec (clock s (clock_reads s)) - tv_usec (ts t)) \<and>
                 (tv_usec (clock s (clock_reads s)) < tv_usec (ts t) \<and>
                  tv_usec (ts t) < 1000000 \<longrightarrow>
                    sint (write_total_ticks st' - write_total_ticks st) < 0)))"
proof -
  let ?ops = "map obj (take (nat n) evs)"
  let ?now = "clock s (clock_reads s)"
  from completed_total_fn [OF assms(1,2)] obtain s'
    where s': "td_metrics_vdi_update_completed evs n s = Some s'" by blast
  let ?st' = "completed_total ?now s r ?ops st"
  have r': "regions s' r = Some ?st'" by (rule completed_region [OF s' assms(3)])
  have n': "clock_reads s' = clock_reads s + 1" by (rule completed_links(3) [OF s'])
  have rt: "read_total_ticks ?st' = read_total_ticks st + ticks_of ?now s r is_read ?ops"
    and wt: "write_total_ticks ?st' = write_total_ticks st + ticks_of ?now s r is_write ?ops"
    by (simp_all add: completed_total_def)
  have single: "(is_read (obj ev) \<longrightarrow>
         read_total_ticks ?st' = read_total_ticks st + (tv_usec ?now - tv_usec (ts t)) \<and>
         (tv_usec ?now < tv_usec (ts t) \<and> tv_usec (ts t) < 1000000 \<longrightarrow>
            sint (read_total_ticks ?st' - read_total_ticks st) < 0)) \<and>
      (is_write (obj ev) \<longrightarrow>
         write_total_ticks ?st' = write_total_ticks st + (tv_usec ?now - tv_usec (ts t)) \<and>
         (tv_usec ?now < tv_usec (ts t) \<and> tv_usec (ts t) < 1000000 \<longrightarrow>
            sint (write_total_ticks ?st' - write_total_ticks st) < 0))"
    if "take (nat n) evs = [ev]" "owner s (obj ev) = Some r" "tiocbs s (data (obj ev)) = Some t"
    for ev t
  proof -
    from that have c: "ticks_of ?now s r P ?ops = (if P (obj ev) then tv_usec ?now - tv_usec (ts t) else 0)"
      for P by (simp add: ticks_of_single)
    show ?thesis
      by (auto simp: rt wt c sint_usec_diff(2))
  qed
  from s' n' r' rt wt single show ?thesis by blast
qed

theorem on_complete_usec_interval_witness:
  "\<exists>s' st'. td_metrics_vdi_update_completed [\<lparr>obj = read_d\<rparr>] 1 stamped_heap = Some s' \<and>
      clock_reads s' = 4 \<and> regions s' 3 = Some st' \<and>
      read_total_ticks st' = 0 + (100000 - 960000) \<and>
      sint (read_total_ticks st' - 0) < 0 \<and>
      tv_sec \<lparr>tv_sec = 10, tv_usec = 960000\<rparr> < tv_sec (clock stamped_heap (clock_reads stamped_heap))"
proof -
  let ?t = "\<lparr>ts = \<lparr>tv_sec = 10, tv_usec = 960000\<rparr>, vdi_stats = 2\<rparr>"
  have t: "tiocbs stamped_heap (data (obj \<lparr>obj = read_d\<rparr>)) = Some ?t"
    and o: "owner stamped_heap (obj \<lparr>obj = read_d\<rparr>) = Some 3"
    and r: "regions stamped_heap 3 = Some zero_stats"
    and k: "is_read (obj \<lparr>obj = read_d\<rparr>)"
    and l: "linked stamped_heap read_d"
    and c: "clock stamped_heap (clock_reads stamped_heap) = \<lparr>tv_sec = 11, tv_usec = 100000\<rparr>"
      "clock_reads stamped_heap = 3"
      "clock stamped_heap 3 = \<lparr>tv_sec = 11, tv_usec = 100000\<rparr>"
    by (simp_all add: stamped_heap_def example_heap_def read_d_def owner_def is_read_def
        linked_def example_clock_def)
  have z: "read_total_ticks zero_stats = 0" by (simp add: zero_stats_def)
  from on_complete_usec_interval [of 1 "[\<lparr>obj = read_d\<rparr>]" stamped_heap 3 zero_stats] r l
  obtain s' st' where s': "td_metrics_vdi_update_completed [\<lparr>obj = read_d\<rparr>] 1 stamped_heap = Some s'"
    and n': "clock_reads s' = clock_reads stamped_heap + 1"
    and r': "regions s' 3 = Some st'"
    and all: "\<forall>ev t. take (nat 1) [\<lparr>obj = read_d\<rparr>] = [ev] \<and> owner stamped_heap (obj ev) = Some 3 \<and>
                tiocbs stamped_heap (data (obj ev)) = Some t \<longrightarrow>
              (is_read (obj ev) \<longrightarrow>
                 read_total_ticks st' = read_total_ticks zero_stats
                   + (tv_usec (clock stamped_heap (clock_reads stamped_heap)) - tv_usec (ts t)) \<and>
                 (tv_usec (clock stamped_heap (clock_reads stamped_heap)) < tv_usec (ts t) \<and>
                  tv_usec (ts t) < 1000000 \<longrightarrow>
                    sint (read_total_ticks st' - read_total_ticks zero_stats) < 0)) \<and>
              (is_write (obj ev) \<longrightarrow>
                 write_total_ticks st' = write_total_ticks zero_stats
                   + (tv_usec (clock stamped_heap (clock_reads stamped_heap)) - tv_usec (ts t)) \<and>
                 (tv_usec (clock stamped_heap (clock_reads stamped_heap)) < tv_usec (ts t) \<and>
                  tv_usec (ts t) < 1000000 \<longrightarrow>
                    sint (write_total_ticks st' - write_total_ticks zero_stats) < 0))"
    by auto
  from all [rule_format, of "\<lparr>obj = read_d\<rparr>" ?t] t o k
  have "read_total_ticks st' = 0 + (100000 - 960000) \<and> sint (read_total_ticks st' - 0) < 0"
    by (simp add: c z)
  with s' n' r' c show ?thesis by simp
qed

subsection \<open>Opcodes other than read and write\<close>

text \<open>
  Claim C6. A completion event whose opcode is neither read nor write leaves the whole heap,
  hence all ten counters of the owning device, unchanged; a batch of such events changes
  nothing but the number of clock readings. Neither faults as long as the tiocbs exist.
\<close>

theorem on_complete_ignores_other_opcodes:
  assumes "n \<le> int (length evs)"
    and "\<forall>ev \<in> set (take (nat n) evs).
           tiocbs s (data (obj ev)) \<noteq> None \<and> \<not> is_read (obj ev) \<and> \<not> is_write (obj ev)"
  shows "(\<forall>ev \<in> set (take (nat n) evs). \<forall>e. update_completed_body e ev s = Some s) \<and>
         td_metrics_vdi_update_completed evs n s = Some (s\<lparr>clock_reads := clock_reads s + 1\<rparr>) \<and>
         regions (s\<lparr>clock_reads := clock_reads s + 1\<rparr>) = regions s"
proof -
  let ?s1 = "s\<lparr>clock_reads := clock_reads s + 1\<rparr>"
  from assms(2) have "\<forall>ev \<in> set (take (nat n) evs).
      tiocbs ?s1 (data (obj ev)) \<noteq> None \<and> \<not> is_read (obj ev) \<and> \<not> is_write (obj ev)"
    by simp
  then have "update_completed_loop (clock s (clock_reads s)) (take (nat n) evs) ?s1 = Some ?s1"
    by (rule completed_loop_ignored)
  with assms(1) have "td_metrics_vdi_update_completed evs n s = Some ?s1"
    by (simp add: td_metrics_vdi_update_completed_def gettimeofday_def)
  moreover from assms(2)
  have "\<forall>ev \<in> set (take (nat n) evs). \<forall>e. update_completed_body e ev s = Some s"
    by (simp add: completed_body_ignored)
  ultimately show ?thesis by simp
qed

theorem on_complete_ignores_other_opcodes_witness:
  "update_completed_body late_tv \<lparr>obj = fsync_c\<rparr> example_heap = Some example_heap \<and>
   td_metrics_vdi_update_completed [\<lparr>obj = fsync_c\<rparr>] 1 example_heap =
     Some (example_heap\<lparr>clock_reads := 1\<rparr>) \<and>
   regions (example_heap\<lparr>clock_reads := 1\<rparr>) = regions example_heap"
proof -
  have n: "clock_reads example_heap = 0" by (simp add: example_heap_def)
  have t: "tiocbs example_heap (data fsync_c) \<noteq> None"
    by (simp add: example_heap_def fsync_c_def)
  from on_complete_ignores_other_opcodes [of 1 "[\<lparr>obj = fsync_c\<rparr>]" example_heap] t
  show ?thesis
    by (simp add: example_kinds n)
qed

text \<open>
  Claim C10. For an operation whose opcode is neither read nor write, submission increments
  \<open>write_reqs_submitted\<close>, merging increments \<open>write_reqs_merged\<close>, and completion leaves
  the region unchanged.
\<close>

theorem other_opcodes_count_as_writes:
  assumes "owner s i = Some r" and "regions s r = Some st"
    and "\<not> is_read i" and "\<not> is_write i"
  shows "(\<exists>s'. td_metrics_vdi_update_submit [i] 1 s = Some s' \<and>
            regions s' r = Some (st\<lparr>write_reqs_submitted := write_reqs_submitted st + 1\<rparr>)) \<and>
         (\<exists>s'. td_metrics_vdi_update_merged i s = Some s' \<and>
            regions s' r = Some (st\<lparr>write_reqs_merged := write_reqs_merged st + 1\<rparr>)) \<and>
         (\<exists>s'. td_metrics_vdi_update_completed [\<lparr>obj = i\<rparr>] 1 s = Some s' \<and>
            regions s' r = Some st)"
proof (intro conjI)
  let ?s1 = "s\<lparr>clock_reads := clock_reads s + 1\<rparr>"
  have o1: "owner ?s1 i = Some r"
    using assms(1) by (simp add: owner_same_links [OF same_links_clock_reads])
  have r1: "regions ?s1 r = Some st" using assms(2) by simp
  from submit_body_write [OF o1 r1 assms(3), of "clock s (clock_reads s)"]
  show "\<exists>s'. td_metrics_vdi_update_submit [i] 1 s = Some s' \<and>
            regions s' r = Some (st\<lparr>write_reqs_submitted := write_reqs_submitted st + 1\<rparr>)"
    by (auto simp: td_metrics_vdi_update_submit_def gettimeofday_def)
  from merged_write [OF assms(1,2,3)]
  show "\<exists>s'. td_metrics_vdi_update_merged i s = Some s' \<and>
            regions s' r = Some (st\<lparr>write_reqs_merged := write_reqs_merged st + 1\<rparr>)"
    by auto
  from o1 have "tiocbs ?s1 (data i) \<noteq> None"
    by (auto simp: owner_def split: option.splits)
  then have "update_completed_body (clock s (clock_reads s)) \<lparr>obj = i\<rparr> ?s1 = Some ?s1"
    using assms(3,4) by (intro completed_body_ignored) simp_all
  with assms(2)
  show "\<exists>s'. td_metrics_vdi_update_completed [\<lparr>obj = i\<rparr>] 1 s = Some s' \<and> regions s' r = Some st"
    by (simp add: td_metrics_vdi_update_completed_def gettimeofday_def)
qed

theorem other_opcodes_count_as_writes_witness:
  "(\<exists>s'. td_metrics_vdi_update_submit [fsync_c] 1 example_heap = Some s' \<and>
      regions s' 3 = Some (zero_stats\<lparr>write_reqs_submitted := 1\<rparr>)) \<and>
   (\<exists>s'. td_metrics_vdi_update_merged fsync_c example_heap = Some s' \<and>
      regions s' 3 = Some (zero_stats\<lparr>write_reqs_merged := 1\<rparr>)) \<and>
   (\<exists>s'. td_metrics_vdi_update_completed [\<lparr>obj = fsync_c\<rparr>] 1 example_heap = Some s' \<and>
      regions s' 3 = Some zero_stats)"
proof -
  have r: "regions example_heap 3 = Some zero_stats"
    by (simp add: example_heap_def)
  have z: "write_reqs_submitted zero_stats = 0" "write_reqs_merged zero_stats = 0"
    by (simp_all add: zero_stats_def)
  from other_opcodes_count_as_writes [OF example_owner(3) r example_kinds(5,6)]
  show ?thesis by (simp add: z)
qed

subsection \<open>Sequences of calls\<close>

lemma counted_Nil: "counted s r [] st st"
  by (simp add: counted_def ops_of_Nil)

lemma counted_Cons:
  assumes "counted s r [c] st st1" "counted s r cs st1 st2"
  shows "counted s r (c # cs) st st2"
  using assms by (simp add: counted_def ops_of_append ops_of_Nil add.assoc)

lemma counted_same_links:
  assumes "same_links s s'"
  shows "counted s' r cs st st' = counted s r cs st st'"
  by (simp add: counted_def ops_of_same_links [OF assms])

lemma run_hook_links:
  assumes "run_hook c s = Some s'"
  shows "same_links s s'" "keeps_regions s s'"
  using assms
  by (cases c; simp add: submit_links merged_links completed_links submit_keeps merged_keeps
        completed_keeps)+

lemma run_hook_total:
  assumes "valid_call s c"
  shows "\<exists>s'. run_hook c s = Some s'"
  using assms
  by (cases c) (simp_all add: submit_total merged_total completed_total_fn list_all_iff)

lemma run_hook_counted:
  assumes "run_hook c s = Some s'" "regions s r = Some st"
  shows "\<exists>st'. regions s' r = Some st' \<and> counted s r [c] st st'"
proof (cases c)
  case (On_submit iocbs nreqs)
  with assms(1) have "td_metrics_vdi_update_submit iocbs nreqs s = Some s'" by simp
  from submit_region [OF this assms(2)] On_submit show ?thesis
    by (simp add: counted_def ops_of_Nil)
next
  case (On_merge iocb)
  with assms(1) have "td_metrics_vdi_update_merged iocb s = Some s'" by simp
  from merged_region [OF this assms(2)] On_merge show ?thesis
    by (simp add: counted_def ops_of_Nil)
next
  case (On_complete evs n)
  with assms(1) have "td_metrics_vdi_update_completed evs n s = Some s'" by simp
  from completed_region [OF this assms(2)] On_complete show ?thesis
    by (simp add: counted_def ops_of_Nil completed_total_def)
qed

lemma valid_call_preserved:
  assumes "same_links s s'" "keeps_regions s s'" "valid_call s c"
  shows "valid_call s' c"
  using assms(3) linked_preserved [OF assms(1,2)]
  by (cases c) (auto simp: list_all_iff)

lemma run_hooks_counted:
  "list_all (valid_call s) cs \<Longrightarrow> regions s r = Some st \<Longrightarrow>
   \<exists>s' st'. run_hooks cs s = Some s' \<and> regions s' r = Some st' \<and> counted s r cs st st'"
proof (induction cs arbitrary: s st)
  case Nil
  then show ?case by (simp add: counted_Nil)
next
  case (Cons c cs)
  from Cons.prems(1) have vc: "valid_call s c" and vcs: "list_all (valid_call s) cs" by simp_all
  from run_hook_total [OF vc] obtain s1 where s1: "run_hook c s = Some s1" by blast
  note sl = run_hook_links [OF s1]
  from run_hook_counted [OF s1 Cons.prems(2)] obtain st1
    where r1: "regions s1 r = Some st1" and c1: "counted s r [c] st st1" by blast
  from vcs have "list_all (valid_call s1) cs"
    by (auto simp: list_all_iff intro: valid_call_preserved [OF sl])
  from Cons.IH [OF this r1] obtain s' st' where s': "run_hooks cs s1 = Some s'"
    and r': "regions s' r = Some st'" and c': "counted s1 r cs st1 st'" by blast
  from c' have "counted s r cs st1 st'" by (simp add: counted_same_links [OF sl(1)])
  with c1 have "counted s r (c # cs) st st'" by (rule counted_Cons)
  with s1 s' r' show ?case by simp
qed

text \<open>
  Claim C2, as amended. After any sequence of calls that cannot fault, each read counter has
  grown (modulo \<open>2 ^ 64\<close>) by the number of operations accounted to the region with the read
  opcode; \<open>write_reqs_submitted\<close> and \<open>write_reqs_merged\<close> by the number of operations
  with any opcode other than read; \<open>write_reqs_completed\<close> by the number of operations with
  the write opcode.
\<close>

theorem request_counters_count_operations:
  assumes "list_all (valid_call s) cs" and "regions s r = Some st"
  shows "\<exists>s' st'. run_hooks cs s = Some s' \<and> regions s' r = Some st' \<and>
      read_reqs_submitted st' = read_reqs_submitted st
        + of_nat (ops_of s r is_read (concat (map submitted_ops cs))) \<and>
      write_reqs_submitted st' = write_reqs_submitted st
        + of_nat (ops_of s r (\<lambda>i. \<not> is_read i) (concat (map submitted_ops cs))) \<and>
      read_reqs_merged st' = read_reqs_merged st
        + of_nat (ops_of s r is_read (concat (map merged_ops cs))) \<and>
      write_reqs_merged st' = write_reqs_merged st
        + of_nat (ops_of s r (\<lambda>i. \<not> is_read i) (concat (map merged_ops cs))) \<and>
      read_reqs_completed st' = read_reqs_completed st
        + of_nat (ops_of s r is_read (concat (map completed_ops cs))) \<and>
      write_reqs_completed st' = write_reqs_completed st
        + of_nat (ops_of s r is_write (concat (map completed_ops cs)))"
  using run_hooks_counted [OF assms] unfolding counted_def .

theorem request_counters_count_operations_witness:
  "\<exists>s' st'. run_hooks [On_submit [read_a, write_b, fsync_c] 3, On_merge write_b,
                 On_complete [\<lparr>obj = read_a\<rparr>, \<lparr>obj = fsync_c\<rparr>] 2] example_heap = Some s' \<and>
     regions s' 3 = Some st' \<and>
     read_reqs_submitted st' = 1 \<and> write_reqs_submitted st' = 2 \<and>
     read_reqs_merged st' = 0 \<and> write_reqs_merged st' = 1 \<and>
     read_reqs_completed st' = 1 \<and> write_reqs_completed st' = 0"
proof -
  have v: "list_all (valid_call example_heap)
     [On_submit [read_a, write_b, fsync_c] 3, On_merge write_b,
      On_complete [\<lparr>obj = read_a\<rparr>, \<lparr>obj = fsync_c\<rparr>] 2]"
    by (simp add: example_linked)
  have r: "regions example_heap 3 = Some zero_stats"
    by (simp add: example_heap_def)
  from request_counters_count_operations [OF v r] show ?thesis
    by (simp add: ops_of_def example_owner example_kinds zero_stats_def)
qed

text \<open>
  Claim C2 as stated fails: submitting one operation with opcode 2 (neither read nor write)
  makes \<open>write_reqs_submitted\<close> 1, while no submitted operation has the write opcode.
\<close>

theorem write_submitted_counts_other_opcodes:
  "counter_after write_reqs_submitted 3 (run_hooks [On_submit [fsync_c] 1] example_heap) = Some 1 \<and>
   ops_of example_heap 3 is_write (submitted_ops (On_submit [fsync_c] 1)) = 0"
proof
  show "counter_after write_reqs_submitted 3 (run_hooks [On_submit [fsync_c] 1] example_heap) = Some 1"
    by (simp add: hook_eval)
  show "ops_of example_heap 3 is_write (submitted_ops (On_submit [fsync_c] 1)) = 0"
    by (simp add: ops_of_def example_kinds)
qed

text \<open>
  Claim C1 on the code: from a zeroed region, a read submitted at 10.000000 s and completed at
  10.950000 s brings \<open>read_total_ticks\<close> to 950000; a second read submitted at 10.960000 s and
  completed at 11.100000 s then brings it down to 90000.
\<close>

theorem total_ticks_decrease:
  "counter_after read_total_ticks 3
     (run_hooks [On_submit [read_a] 1, On_complete [\<lparr>obj = read_a\<rparr>] 1, On_submit [read_d] 1]
        example_heap) = Some 950000 \<and>
   counter_after read_total_ticks 3
     (run_hooks [On_submit [read_a] 1, On_complete [\<lparr>obj = read_a\<rparr>] 1, On_submit [read_d] 1,
                 On_complete [\<lparr>obj = read_d\<rparr>] 1]
        example_heap) = Some 90000"
  by (simp add: hook_eval)

section \<open>Properties of the directory manager\<close>

subsection \<open>One activation of empty_folder\<close>

lemma S_IFDIR_not_REG: "S_IFDIR AND S_IFREG = 0"
  by (simp add: S_IFDIR_def S_IFREG_def)

lemma opendir_Inr:
  "opendir env fds path node = Inr es \<Longrightarrow>
   node = Dir (pinned node) es \<and> fds \<noteq> 0 \<and> opendir_refused env path = None"
  by (cases node) (auto split: if_splits option.splits)

lemma empty_folder_closed:
  "opendir env fds path node = Inl e \<Longrightarrow>
   empty_folder env fds path node lg = (e, node, lg @ [EPRINTF Failed_to_open_directory e])"
  by simp

lemma empty_folder_open:
  "opendir env fds path node = Inr es \<Longrightarrow>
   empty_folder env fds path node lg =
     (case readdir_loop env (fds - 1) path es (garbage env path) 0 lg of
        (err, es', lg') \<Rightarrow> (err, Dir (pinned node) es', lg'))"
  by simp

lemma readdir_loop_marker:
  "marker d_name \<Longrightarrow>
   readdir_loop env fds path ((d_name, node) # rest) statbuf err lg =
     (case readdir_loop env fds path rest statbuf err lg of
        (err', rest', lg') \<Rightarrow> (err', (d_name, node) # rest', lg'))"
  by (simp add: marker_def)

lemma readdir_loop_enomem:
  "\<not> marker d_name \<Longrightarrow> enomem env (path @ ''/'' @ d_name) \<Longrightarrow>
   readdir_loop env fds path ((d_name, node) # rest) statbuf err lg =
     (ENOMEM, (d_name, node) # rest, lg @ [EPRINTF Failed_to_allocate_file_path ENOMEM])"
  by (simp add: marker_def)

lemma readdir_loop_unlink:
  assumes "\<not> marker d_name" "\<not> enomem env (path @ ''/'' @ d_name)"
    and "(case stat node of None \<Rightarrow> statbuf | Some m \<Rightarrow> m) = sb" "sb AND S_IFREG \<noteq> 0"
  shows "readdir_loop env fds path ((d_name, node) # rest) statbuf err lg =
     (case unlink node of
        None \<Rightarrow> readdir_loop env fds path rest sb (int (length (path @ ''/'' @ d_name))) lg
      | Some e \<Rightarrow>
          (case readdir_loop env fds path rest sb (int (length (path @ ''/'' @ d_name))) lg of
             (err', rest', lg') \<Rightarrow> (err', (d_name, node) # rest', lg')))"
  using assms by (simp add: marker_def Let_def split: option.splits)

lemma readdir_loop_recurse:
  assumes "\<not> marker d_name" "\<not> enomem env (path @ ''/'' @ d_name)"
    and "(case stat node of None \<Rightarrow> statbuf | Some m \<Rightarrow> m) = sb" "sb AND S_IFREG = 0"
    and "empty_folder env fds (path @ ''/'' @ d_name) node lg = (e, node', lg1)"
  shows "readdir_loop env fds path ((d_name, node) # rest) statbuf err lg =
     (case rmdir node' of
        None \<Rightarrow> readdir_loop env fds path rest sb (int (length (path @ ''/'' @ d_name))) lg1
      | Some e' \<Rightarrow>
          (case readdir_loop env fds path rest sb (int (length (path @ ''/'' @ d_name))) lg1 of
             (err', rest', lg') \<Rightarrow> (err', (d_name, node') # rest', lg')))"
  using assms by (simp add: marker_def Let_def split: option.splits)

lemmas [simp del] = readdir_loop.simps(2) empty_folder.simps

lemmas fs_eval =
  empty_folder.simps readdir_loop.simps empty_folder_at_def rmdir_at_def mkdir_def
  opendir_absent_def td_metrics_start_def td_metrics_stop_def example_env_def tight_env_def
  refusing_env_def stale_entries_def stale_world_def fifo_world_def fresh_world_def
  chain_world_def mixed_entries_def marker_def S_IFREG_def S_IFDIR_def S_IFIFO_def EPERM_def
  ENOENT_def ENOMEM_def EACCES_def EEXIST_def ENOTDIR_def EISDIR_def EMFILE_def ENOTEMPTY_def
  Let_def

lemma empty_folder_result:
  obtains (closed) e where "opendir env fds path (Dir p es) = Inl e"
      "empty_folder env fds path (Dir p es) lg =
         (e, Dir p es, lg @ [EPRINTF Failed_to_open_directory e])"
  | (opened) err es' lg' where "opendir env fds path (Dir p es) = Inr es"
      "readdir_loop env (fds - 1) path es (garbage env path) 0 lg = (err, es', lg')"
      "empty_folder env fds path (Dir p es) lg = (err, Dir p es', lg')"
proof (cases "opendir env fds path (Dir p es)")
  case (Inl e)
  then show ?thesis by (intro closed [of e]) (simp_all add: empty_folder_closed)
next
  case (Inr ds)
  then have o: "opendir env fds path (Dir p es) = Inr es"
    by (auto split: if_splits option.splits)
  obtain err es' lg'
    where l: "readdir_loop env (fds - 1) path es (garbage env path) 0 lg = (err, es', lg')"
    by (cases "readdir_loop env (fds - 1) path es (garbage env path) 0 lg") auto
  with o show ?thesis by (intro opened [OF o l]) (simp add: empty_folder_open)
qed

lemma readdir_loop_Cons_cases:
  obtains
    (skip) "marker d_name"
      "readdir_loop env fds path ((d_name, node) # rest) statbuf err lg =
         (case readdir_loop env fds path rest statbuf err lg of
            (e, r, l) \<Rightarrow> (e, (d_name, node) # r, l))"
  | (abort) "\<not> marker d_name" "enomem env (path @ ''/'' @ d_name)"
      "readdir_loop env fds path ((d_name, node) # rest) statbuf err lg =
         (ENOMEM, (d_name, node) # rest, lg @ [EPRINTF Failed_to_allocate_file_path ENOMEM])"
  | (unlinked) sb where "\<not> marker d_name" "\<not> enomem env (path @ ''/'' @ d_name)"
      "(case stat node of None \<Rightarrow> statbuf | Some m \<Rightarrow> m) = sb" "sb AND S_IFREG \<noteq> 0"
      "unlink node = None"
      "readdir_loop env fds path ((d_name, node) # rest) statbuf err lg =
         readdir_loop env fds path rest sb (int (length (path @ ''/'' @ d_name))) lg"
  | (unlink_failed) sb e where "\<not> marker d_name" "\<not> enomem env (path @ ''/'' @ d_name)"
      "(case stat node of None \<Rightarrow> statbuf | Some m \<Rightarrow> m) = sb" "sb AND S_IFREG \<noteq> 0"
      "unlink node = Some e"
      "readdir_loop env fds path ((d_name, node) # rest) statbuf err lg =
         (case readdir_loop env fds path rest sb (int (length (path @ ''/'' @ d_name))) lg of
            (e, r, l) \<Rightarrow> (e, (d_name, node) # r, l))"
  | (removed) sb e node' lg1 where "\<not> marker d_name" "\<not> enomem env (path @ ''/'' @ d_name)"
      "(case stat node of None \<Rightarrow> statbuf | Some m \<Rightarrow> m) = sb" "sb AND S_IFREG = 0"
      "empty_folder env fds (path @ ''/'' @ d_name) node lg = (e, node', lg1)" "rmdir node' = None"
      "readdir_loop env fds path ((d_name, node) # rest) statbuf err lg =
         readdir_loop env fds path rest sb (int (length (path @ ''/'' @ d_name))) lg1"
  | (rmdir_failed) sb e node' lg1 e' where "\<not> marker d_name"
      "\<not> enomem env (path @ ''/'' @ d_name)"
      "(case stat node of None \<Rightarrow> statbuf | Some m \<Rightarrow> m) = sb" "sb AND S_IFREG = 0"
      "empty_folder env fds (path @ ''/'' @ d_name) node lg = (e, node', lg1)" "rmdir node' = Some e'"
      "readdir_loop env fds path ((d_name, node) # rest) statbuf err lg =
         (case readdir_loop env fds path rest sb (int (length (path @ ''/'' @ d_name))) lg1 of
            (e, r, l) \<Rightarrow> (e, (d_name, node') # r, l))"
proof (cases "marker d_name")
  case True
  then show ?thesis by (intro skip readdir_loop_marker)
next
  case nm: False
  show ?thesis
  proof (cases "enomem env (path @ ''/'' @ d_name)")
    case True
    with nm show ?thesis by (intro abort readdir_loop_enomem)
  next
    case ne: False
    define sb where "sb = (case stat node of None \<Rightarrow> statbuf | Some m \<Rightarrow> m)"
    then have sb: "(case stat node of None \<Rightarrow> statbuf | Some m \<Rightarrow> m) = sb" by simp
    show ?thesis
    proof (cases "sb AND S_IFREG = 0")
      case False
      note eq = readdir_loop_unlink [OF nm ne sb False, where rest = rest and err = err and lg = lg and fds = fds]
      show ?thesis
      proof (cases "unlink node")
        case None
        with eq show ?thesis by (intro unlinked [OF nm ne sb False]) simp_all
      next
        case (Some e)
        with eq show ?thesis by (intro unlink_failed [OF nm ne sb False]) simp_all
      qed
    next
      case True
      obtain e node' lg1 where ef: "empty_folder env fds (path @ ''/'' @ d_name) node lg = (e, node', lg1)"
        by (cases "empty_folder env fds (path @ ''/'' @ d_name) node lg") auto
      note eq = readdir_loop_recurse [OF nm ne sb True ef, where rest = rest and err = err]
      show ?thesis
      proof (cases "rmdir node'")
        case None
        with eq show ?thesis by (intro removed [OF nm ne sb True ef]) simp_all
      next
        case (Some e')
        with eq show ?thesis by (intro rmdir_failed [OF nm ne sb True ef]) simp_all
      qed
    qed
  qed
qed

lemma readdir_loop_Cons_summary:
  assumes "readdir_loop env fds path ((d_name, node) # rest) statbuf err lg = (err', es', lg')"
  shows "(enomem env (path @ ''/'' @ d_name) \<and> es' = (d_name, node) # rest) \<or>
         (\<exists>sb err1 lg1 r. readdir_loop env fds path rest sb err1 lg1 = (err', r, lg') \<and>
            (es' = r \<or> (\<exists>n. es' = (d_name, n) # r)))"
proof -
  have dropped: ?thesis if "readdir_loop env fds path rest sb err1 lg1 = (err', es', lg')"
    for sb err1 lg1
    using that by blast
  have kept: ?thesis
    if "readdir_loop env fds path rest sb err1 lg1 = (e1, r, l1)"
      and "(err', es', lg') = (e1, (d_name, n) # r, l1)"
    for sb err1 lg1 e1 r l1 n
    using that by blast
  show ?thesis
  proof (cases rule: readdir_loop_Cons_cases [where d_name = d_name and env = env and fds = fds and path = path
      and node = node and rest = rest and statbuf = statbuf and err = err and lg = lg])
    case skip
    obtain e1 r l1 where l: "readdir_loop env fds path rest statbuf err lg = (e1, r, l1)"
      by (cases "readdir_loop env fds path rest statbuf err lg") auto
    with skip assms show ?thesis by (intro kept [OF l]) simp
  next
    case abort
    with assms show ?thesis by simp
  next
    case (unlinked sb)
    with assms show ?thesis by (intro dropped) simp
  next
    case (unlink_failed sb e)
    obtain e1 r l1
      where l: "readdir_loop env fds path rest sb (int (length (path @ ''/'' @ d_name))) lg = (e1, r, l1)"
      by (cases "readdir_loop env fds path rest sb (int (length (path @ ''/'' @ d_name))) lg") auto
    with unlink_failed assms show ?thesis by (intro kept [OF l]) simp
  next
    case (removed sb e node' lg1)
    with assms show ?thesis by (intro dropped) simp
  next
    case (rmdir_failed sb e node' lg1 e')
    obtain e1 r l1
      where l: "readdir_loop env fds path rest sb (int (length (path @ ''/'' @ d_name))) lg1 = (e1, r, l1)"
      by (cases "readdir_loop env fds path rest sb (int (length (path @ ''/'' @ d_name))) lg1") auto
    with rmdir_failed assms show ?thesis by (intro kept [OF l]) simp
  qed
qed

subsection \<open>What a purge removes and what it logs\<close>

lemma purge_purgeable:
  shows "\<forall>f. \<not> enomem env f \<Longrightarrow> purgeable env fds path node \<Longrightarrow> node = Dir p es \<Longrightarrow>
           \<exists>err. empty_folder env fds path node lg = (err, Dir p [], lg)"
    and "\<forall>f. \<not> enomem env f \<Longrightarrow> purgeable_entries env fds path es' \<Longrightarrow>
           \<exists>err'. readdir_loop env fds path es' statbuf err lg = (err', [], lg)"
proof (induction env fds path node and env fds path es' arbitrary: p es lg and statbuf err lg
    rule: purgeable_purgeable_entries.induct)
  case (1 env fds path m q)
  then show ?case by simp
next
  case (2 env fds path q ds)
  from "2.prems" have pe: "purgeable_entries env (fds - 1) path ds"
    and o: "opendir env fds path (Dir q ds) = Inr ds" and [simp]: "q = p" "ds = es"
    by simp_all
  from "2.IH" [OF "2.prems"(1) pe, of "garbage env path" 0 lg] empty_folder_open [OF o, of lg]
  show ?case by auto
next
  case (3 env fds path q)
  then show ?case by simp
next
  case (4 env fds path)
  then show ?case by simp
next
  case (5 env fds path d_name node rest)
  note ne_all = "5.prems"(1)
  from "5.prems" have nm: "\<not> marker d_name"
    and pn: "purgeable env fds (path @ ''/'' @ d_name) node"
    and pr: "purgeable_entries env fds path rest" by simp_all
  from ne_all have ne: "\<not> enomem env (path @ ''/'' @ d_name)" by simp
  let ?err1 = "int (length (path @ ''/'' @ d_name))"
  show ?case
  proof (cases node)
    case (File m q)
    with pn have reg: "m AND S_IFREG \<noteq> 0" and "\<not> q" by simp_all
    then have "readdir_loop env fds path ((d_name, node) # rest) statbuf err lg =
        readdir_loop env fds path rest m ?err1 lg"
      using readdir_loop_unlink [OF nm ne, where node = node and statbuf = statbuf and sb = m
          and rest = rest and err = err and lg = lg and fds = fds] File by simp
    with "5.IH"(2) [OF ne_all pr, of m ?err1 lg] show ?thesis by simp
  next
    case (Dir q ds)
    with pn have "\<not> q" by simp
    from "5.IH"(1) [OF ne_all pn Dir, of lg] obtain e
      where e: "empty_folder env fds (path @ ''/'' @ d_name) node lg = (e, Dir q [], lg)" by blast
    have "readdir_loop env fds path ((d_name, node) # rest) statbuf err lg =
        readdir_loop env fds path rest S_IFDIR ?err1 lg"
      using readdir_loop_recurse [OF nm ne _ S_IFDIR_not_REG e, where statbuf = statbuf
          and rest = rest and err = err] Dir \<open>\<not> q\<close>
      by simp
    with "5.IH"(2) [OF ne_all pr, of S_IFDIR ?err1 lg] show ?thesis by simp
  next
    case (Nostat q)
    with pn show ?thesis by simp
  qed
qed

lemma readdir_loop_names:
  "readdir_loop env fds path es statbuf err lg = (err', es', lg') \<Longrightarrow>
   fst ` set es' \<subseteq> fst ` set es"
proof (induction es arbitrary: statbuf err lg err' es' lg')
  case Nil
  then show ?case by simp
next
  case (Cons x rest)
  obtain d_name node where x: "x = (d_name, node)" by (cases x)
  from readdir_loop_Cons_summary [OF Cons.prems [unfolded x]]
  show ?case
  proof (elim disjE conjE exE)
    assume "es' = (d_name, node) # rest"
    with x show ?thesis by simp
  next
    fix sb err1 lg1 r
    assume l: "readdir_loop env fds path rest sb err1 lg1 = (err', r, lg')" and "es' = r"
    with Cons.IH [OF l] x show ?thesis by auto
  next
    fix sb err1 lg1 r n
    assume l: "readdir_loop env fds path rest sb err1 lg1 = (err', r, lg')"
      and "es' = (d_name, n) # r"
    with Cons.IH [OF l] x show ?thesis by auto
  qed
qed

lemma purgeable_removed:
  assumes "\<forall>f. \<not> enomem env f" "\<not> marker d_name"
    and "purgeable env fds (path @ ''/'' @ d_name) node"
  shows "\<exists>sb lg1. readdir_loop env fds path ((d_name, node) # rest) statbuf err lg =
           readdir_loop env fds path rest sb (int (length (path @ ''/'' @ d_name))) lg1"
proof (cases rule: readdir_loop_Cons_cases [where d_name = d_name and env = env and fds = fds
      and path = path and node = node and rest = rest and statbuf = statbuf and err = err
      and lg = lg])
  case skip
  with assms show ?thesis by simp
next
  case abort
  with assms show ?thesis by simp
next
  case (unlinked sb)
  then show ?thesis by blast
next
  case (unlink_failed sb e)
  with assms(3) show ?thesis
    by (cases node) (simp_all add: S_IFDIR_not_REG split: if_splits)
next
  case (removed sb e node' lg1)
  then show ?thesis by blast
next
  case (rmdir_failed sb e node' lg1 e')
  show ?thesis
  proof (cases node)
    case (File m q)
    with assms(3) rmdir_failed(3,4) show ?thesis by simp
  next
    case (Dir q ds)
    from purge_purgeable(1) [OF assms(1,3) Dir, of lg] rmdir_failed(5)
    have "node' = Dir q []" by auto
    moreover from assms(3) Dir have "\<not> q" by simp
    ultimately show ?thesis using rmdir_failed(6) by simp
  next
    case (Nostat q)
    with assms(3) show ?thesis by simp
  qed
qed

lemma readdir_loop_purges:
  assumes "\<forall>f. \<not> enomem env f"
  shows "distinct (map fst es) \<Longrightarrow>
   readdir_loop env fds path es statbuf err lg = (err', es', lg') \<Longrightarrow>
   (d, x) \<in> set es \<Longrightarrow> \<not> marker d \<Longrightarrow> purgeable env fds (path @ ''/'' @ d) x \<Longrightarrow>
   d \<notin> fst ` set es'"
proof (induction es arbitrary: statbuf err lg err' es' lg')
  case Nil
  then show ?case by simp
next
  case (Cons y rest)
  obtain d_name node where y: "y = (d_name, node)" by (cases y)
  from Cons.prems(1) y have dn: "d_name \<notin> fst ` set rest" and dr: "distinct (map fst rest)"
    by simp_all
  show ?case
  proof (cases "(d, x) = (d_name, node)")
    case True
    with Cons.prems(4,5) have "\<not> marker d_name" "purgeable env fds (path @ ''/'' @ d_name) node"
      by simp_all
    from purgeable_removed [OF assms this, of rest statbuf err lg] Cons.prems(2) y
    obtain sb lg1
      where "readdir_loop env fds path rest sb (int (length (path @ ''/'' @ d_name))) lg1
        = (err', es', lg')" by auto
    from readdir_loop_names [OF this] dn True show ?thesis by auto
  next
    case False
    with Cons.prems(3) y have in_rest: "(d, x) \<in> set rest" by auto
    then have neq: "d \<noteq> d_name" using dn by force
    from readdir_loop_Cons_summary [OF Cons.prems(2) [unfolded y]] assms
    obtain sb err1 lg1 r where l: "readdir_loop env fds path rest sb err1 lg1 = (err', r, lg')"
      and es': "es' = r \<or> (\<exists>n. es' = (d_name, n) # r)" by auto
    from Cons.IH [OF dr l in_rest Cons.prems(4,5)] es' neq show ?thesis by auto
  qed
qed

lemma log_only_opendir:
  shows "\<forall>f. \<not> enomem env f \<Longrightarrow>
     \<exists>new. snd (snd (empty_folder env fds path node lg)) = lg @ new \<and> list_all about_opendir new"
    and "\<forall>f. \<not> enomem env f \<Longrightarrow>
     \<exists>new. snd (snd (readdir_loop env fds path es statbuf err lg)) = lg @ new \<and>
           list_all about_opendir new"
proof (induction env fds path node and env fds path es arbitrary: lg and statbuf err lg
    rule: purgeable_purgeable_entries.induct)
  case (1 env fds path m p)
  show ?case by (simp add: empty_folder.simps)
next
  case (2 env fds path p ds)
  show ?case
  proof (cases rule: empty_folder_result [of env fds path p ds lg])
    case (closed e)
    then show ?thesis by simp
  next
    case (opened err es' lg')
    from "2.IH" [OF "2.prems", of "garbage env path" 0 lg] opened show ?thesis by simp
  qed
next
  case (3 env fds path p)
  show ?case by (simp add: empty_folder.simps)
next
  case (4 env fds path)
  show ?case by simp
next
  case (5 env fds path d_name node rest)
  note ne_all = "5.prems"
  have tail: ?case
    if "snd (snd (readdir_loop env fds path ((d_name, node) # rest) statbuf err lg)) =
        snd (snd (readdir_loop env fds path rest sb err1 lg1))"
      and "lg1 = lg @ new1" and "list_all about_opendir new1"
    for sb err1 lg1 new1
  proof -
    from "5.IH"(2) [OF ne_all, of sb err1 lg1] obtain new2
      where "snd (snd (readdir_loop env fds path rest sb err1 lg1)) = lg1 @ new2"
        and "list_all about_opendir new2" by blast
    with that have "snd (snd (readdir_loop env fds path ((d_name, node) # rest) statbuf err lg)) =
        lg @ (new1 @ new2) \<and> list_all about_opendir (new1 @ new2)" by simp
    then show ?thesis by blast
  qed
  let ?n = "int (length (path @ ''/'' @ d_name))"
  show ?case
  proof (cases rule: readdir_loop_Cons_cases [where d_name = d_name and env = env and fds = fds
        and path = path and node = node and rest = rest and statbuf = statbuf and err = err
        and lg = lg])
    case skip
    then show ?thesis by (intro tail [of statbuf err lg "[]"]) (simp_all split: prod.splits)
  next
    case abort
    with ne_all show ?thesis by simp
  next
    case (unlinked sb)
    then show ?thesis by (intro tail [of sb ?n lg "[]"]) simp_all
  next
    case (unlink_failed sb e)
    then show ?thesis by (intro tail [of sb ?n lg "[]"]) (simp_all split: prod.splits)
  next
    case (removed sb e node' lg1)
    from "5.IH"(1) [OF ne_all, of lg] removed(5) obtain new1
      where "lg1 = lg @ new1" "list_all about_opendir new1" by auto
    with removed show ?thesis by (intro tail [of sb ?n lg1 new1]) simp_all
  next
    case (rmdir_failed sb e node' lg1 e')
    from "5.IH"(1) [OF ne_all, of lg] rmdir_failed(5) obtain new1
      where "lg1 = lg @ new1" "list_all about_opendir new1" by auto
    with rmdir_failed show ?thesis
      by (intro tail [of sb ?n lg1 new1]) (simp_all split: prod.splits)
  qed
qed

lemma regular_files_loop:
  assumes "\<forall>f. \<not> enomem env f"
  shows "list_all (\<lambda>(d, x). \<not> marker d \<and> regular_file x) es \<Longrightarrow>
    \<exists>e. readdir_loop env fds path es statbuf err lg = (e, filter (\<lambda>(d, x). pinned x) es, lg)"
proof (induction es arbitrary: statbuf err)
  case Nil
  then show ?case by simp
next
  case (Cons y rest)
  obtain d_name node where y: "y = (d_name, node)" by (cases y)
  with Cons.prems have nm: "\<not> marker d_name" and rf: "regular_file node"
    and rest: "list_all (\<lambda>(d, x). \<not> marker d \<and> regular_file x) rest" by simp_all
  from rf obtain m p where node: "node = File m p" and reg: "m AND S_IFREG \<noteq> 0"
    by (cases node) simp_all
  from assms have ne: "\<not> enomem env (path @ ''/'' @ d_name)" by simp
  note eq = readdir_loop_unlink [OF nm ne, where node = node and statbuf = statbuf and sb = m
      and rest = rest and err = err and lg = lg and fds = fds]
  from Cons.IH [OF rest, of m "int (length (path @ ''/'' @ d_name))"] obtain e
    where "readdir_loop env fds path rest m (int (length (path @ ''/'' @ d_name))) lg =
       (e, filter (\<lambda>(d, x). pinned x) rest, lg)" by blast
  with eq node reg y show ?case by simp
qed

text \<open>
  Claim C9, as amended. In a purge of a directory whose entries have distinct names, during
  which no allocation fails: no entry is added and the only lines logged are about
  directories that could not be opened. When the directory itself cannot be opened, that is
  logged and nothing is removed. When it opens, every entry other than the markers that is
  purgeable is gone, whatever happens to its siblings, and if all entries are regular files,
  exactly the pinned ones remain and nothing at all is logged.
\<close>

theorem purge_is_best_effort:
  assumes "\<forall>f. \<not> enomem env f" and "distinct (map fst es)"
    and "empty_folder env fds path (Dir p es) lg = (err, node', lg')"
  shows "\<exists>es' new. node' = Dir p es' \<and> lg' = lg @ new \<and>
           fst ` set es' \<subseteq> fst ` set es \<and>
           list_all about_opendir new \<and>
           (\<forall>e. opendir env fds path (Dir p es) = Inl e \<longrightarrow>
              es' = es \<and> new = [EPRINTF Failed_to_open_directory e]) \<and>
           (opendir env fds path (Dir p es) = Inr es \<longrightarrow>
              (\<forall>(d, x) \<in> set es.
                 \<not> marker d \<and> purgeable env (fds - 1) (path @ ''/'' @ d) x \<longrightarrow>
                 d \<notin> fst ` set es') \<and>
              (list_all (\<lambda>(d, x). \<not> marker d \<and> regular_file x) es \<longrightarrow>
                 es' = filter (\<lambda>(d, x). pinned x) es \<and> new = []))"
proof (cases rule: empty_folder_result [of env fds path p es lg])
  case (closed e)
  from closed(2) assms(3)
  have "(err, node', lg') = (e, Dir p es, lg @ [EPRINTF Failed_to_open_directory e])"
    by simp
  then have "node' = Dir p es" "lg' = lg @ [EPRINTF Failed_to_open_directory e]"
    by simp_all
  with closed(1) show ?thesis by simp
next
  case (opened err0 es' lg0)
  with assms(3) have n: "node' = Dir p es'"
    and rl: "readdir_loop env (fds - 1) path es (garbage env path) 0 lg = (err, es', lg')"
    by simp_all
  from log_only_opendir(2) [OF assms(1), of "fds - 1" path es "garbage env path" 0 lg] rl
  obtain new where lg': "lg' = lg @ new" and new: "list_all about_opendir new" by auto
  have "\<forall>(d, x) \<in> set es.
      \<not> marker d \<and> purgeable env (fds - 1) (path @ ''/'' @ d) x \<longrightarrow> d \<notin> fst ` set es'"
    using readdir_loop_purges [OF assms(1,2) rl] by blast
  moreover have "es' = filter (\<lambda>(d, x). pinned x) es \<and> new = []"
    if "list_all (\<lambda>(d, x). \<not> marker d \<and> regular_file x) es"
    using regular_files_loop [OF assms(1) that, of "fds - 1" path "garbage env path" 0 lg] rl lg'
    by auto
  ultimately show ?thesis
    using n lg' new readdir_loop_names [OF rl] opened(1) by auto
qed

lemma opendir_example:
  "opendir example_env (Suc n) path (Dir p es) = Inr es"
  "opendir example_env 0 path (Dir p es) = Inl EMFILE"
  by (simp_all add: example_env_def)

theorem purge_is_best_effort_witness:
  "empty_folder example_env 3 ''/dev/shm/td3-42'' (Dir False mixed_entries) [] =
     (17,
      Dir False [(''a'', File S_IFREG True), (''p'', File S_IFIFO False), (''l'', Nostat False),
                 (''n'', Dir False [(''o'', Dir False [(''q'', Dir False [(''z'', File S_IFREG False)])])])],
      [EPRINTF Failed_to_open_directory ENOTDIR, EPRINTF Failed_to_open_directory ENOENT,
       EPRINTF Failed_to_open_directory EMFILE]) \<and>
   ''b'' \<notin> fst ` set [(''a'', File S_IFREG True), (''p'', File S_IFIFO False),
                       (''l'', Nostat False),
                       (''n'', Dir False [(''o'', Dir False [(''q'', Dir False [(''z'', File S_IFREG False)])])])] \<and>
   ''d'' \<notin> fst ` set [(''a'', File S_IFREG True), (''p'', File S_IFIFO False),
                       (''l'', Nostat False),
                       (''n'', Dir False [(''o'', Dir False [(''q'', Dir False [(''z'', File S_IFREG False)])])])]"
proof -
  let ?left = "[(''a'', File S_IFREG True), (''p'', File S_IFIFO False), (''l'', Nostat False),
                (''n'', Dir False [(''o'', Dir False [(''q'', Dir False [(''z'', File S_IFREG False)])])])]"
  have e: "\<forall>f. \<not> enomem example_env f" by (simp add: example_env_def)
  have d: "distinct (map fst mixed_entries)" by (simp add: mixed_entries_def)
  have r: "empty_folder example_env 3 ''/dev/shm/td3-42'' (Dir False mixed_entries) [] =
     (17, Dir False ?left,
      [EPRINTF Failed_to_open_directory ENOTDIR, EPRINTF Failed_to_open_directory ENOENT,
       EPRINTF Failed_to_open_directory EMFILE])"
    by (simp add: fs_eval)
  have o: "opendir example_env 3 ''/dev/shm/td3-42'' (Dir False mixed_entries) = Inr mixed_entries"
    by (simp add: example_env_def)
  have b: "(''b'', File S_IFREG False) \<in> set mixed_entries" "\<not> marker ''b''"
    "purgeable example_env (3 - 1) (''/dev/shm/td3-42'' @ ''/'' @ ''b'') (File S_IFREG False)"
    and dd: "(''d'', Dir False [(''x'', File S_IFREG False)]) \<in> set mixed_entries"
    "\<not> marker ''d''"
    "purgeable example_env (3 - 1) (''/dev/shm/td3-42'' @ ''/'' @ ''d'')
       (Dir False [(''x'', File S_IFREG False)])"
    by (simp_all add: mixed_entries_def marker_def S_IFREG_def example_env_def)
  from purge_is_best_effort [OF e d r] o obtain es'
    where 1: "Dir False ?left = Dir False es'"
      and 2: "\<forall>(d, x) \<in> set mixed_entries.
        \<not> marker d \<and> purgeable example_env (3 - 1) (''/dev/shm/td3-42'' @ ''/'' @ d) x \<longrightarrow>
        d \<notin> fst ` set es'"
    by auto
  from 2 b have "''b'' \<notin> fst ` set es'" by blast
  moreover from 2 dd have "''d'' \<notin> fst ` set es'" by blast
  ultimately show ?thesis using 1 r by simp
qed

text \<open>
  Claim C9 as stated fails: \<^verbatim>\<open>unlink\<close> fails on the pinned regular file \<^verbatim>\<open>a\<close>, its sibling
  \<^verbatim>\<open>b\<close> is removed, and the log stays empty.
\<close>

theorem removal_failure_is_not_logged:
  "unlink (File S_IFREG True) = Some EPERM \<and>
   empty_folder example_env 16 ''/dev/shm/td3-42''
     (Dir False [(''a'', File S_IFREG True), (''b'', File S_IFREG False)]) [] =
     (17, Dir False [(''a'', File S_IFREG True)], [])"
  by (simp add: fs_eval)

subsection \<open>Start on a stale directory\<close>

text \<open>
  Claim C3, as amended. When a directory exists at the metrics path and the path string can be
  allocated, \<open>td_metrics_start\<close> returns 0, records the path and leaves a directory in place
  that holds no entry it did not hold before. When moreover no allocation fails during the
  purge, the directory opens and every entry is purgeable (regular files and directories that
  open and that the kernel lets go), the directory left in place is empty and nothing is
  logged. When the directory does not open, it is left as it was and that is logged.
\<close>

theorem start_reuses_stale_directory:
  assumes "root w = Some (Dir p es)" and "\<not> enomem env (metrics_path env)"
  shows "fst (td_metrics_start env w) = 0 \<and>
         td_metrics_path (snd (td_metrics_start env w)) = Some (metrics_path env) \<and>
         (\<exists>es'. root (snd (td_metrics_start env w)) = Some (Dir p es') \<and>
                fst ` set es' \<subseteq> fst ` set es) \<and>
         ((\<forall>f. \<not> enomem env f) \<and>
          opendir env (free_fds env) (metrics_path env) (Dir p es) = Inr es \<and>
          purgeable_entries env (free_fds env - 1) (metrics_path env) es \<longrightarrow>
            root (snd (td_metrics_start env w)) = Some (Dir p []) \<and>
            logged (snd (td_metrics_start env w)) = logged w) \<and>
         (\<forall>e. opendir env (free_fds env) (metrics_path env) (Dir p es) = Inl e \<longrightarrow>
            root (snd (td_metrics_start env w)) = Some (Dir p es) \<and>
            logged (snd (td_metrics_start env w)) =
              logged w @ [EPRINTF Failed_to_open_directory e])"
proof -
  let ?path = "metrics_path env"
  have st: "td_metrics_start env w =
      (0, w\<lparr>td_metrics_path := Some ?path, root := Some node', logged := lg'\<rparr>)"
    if "empty_folder env (free_fds env) ?path (Dir p es) (logged w) = (err, node', lg')"
    for err node' lg'
    using assms that by (simp add: td_metrics_start_def mkdir_def empty_folder_at_def Let_def)
  show ?thesis
  proof (cases rule: empty_folder_result [of env "free_fds env" ?path p es "logged w"])
    case (closed e)
    from st [OF closed(2)] closed(1) show ?thesis by simp
  next
    case (opened err es' lg')
    have "es' = [] \<and> lg' = logged w"
      if "\<forall>f. \<not> enomem env f" "purgeable_entries env (free_fds env - 1) ?path es"
      using purge_purgeable(2) [OF that, of "garbage env ?path" 0 "logged w"] opened(2) by auto
    with st [OF opened(3)] readdir_loop_names [OF opened(2)] opened(1) show ?thesis by simp
  qed
qed

theorem start_reuses_stale_directory_witness:
  "fst (td_metrics_start example_env stale_world) = 0 \<and>
   td_metrics_path (snd (td_metrics_start example_env stale_world)) = Some ''/dev/shm/td3-42'' \<and>
   root (snd (td_metrics_start example_env stale_world)) = Some (Dir False []) \<and>
   logged (snd (td_metrics_start example_env stale_world)) = []"
proof -
  have r: "root stale_world = Some (Dir False stale_entries)"
    and l: "logged stale_world = []"
    by (simp_all add: stale_world_def)
  have m: "\<not> enomem example_env (metrics_path example_env)" "\<forall>f. \<not> enomem example_env f"
    "metrics_path example_env = ''/dev/shm/td3-42''" "free_fds example_env = 16"
    by (simp_all add: example_env_def)
  have o: "opendir example_env 16 ''/dev/shm/td3-42'' (Dir False stale_entries) = Inr stale_entries"
    by (simp add: example_env_def)
  have p: "purgeable_entries example_env (16 - 1) ''/dev/shm/td3-42'' stale_entries"
    by (simp add: stale_entries_def marker_def S_IFREG_def example_env_def)
  from start_reuses_stale_directory [OF r m(1)] m(2,3,4) o p l show ?thesis by simp
qed

text \<open>
  Claim C3 as stated fails: on a stale directory that holds a FIFO, \<open>td_metrics_start\<close>
  returns 0 and the FIFO is still there.
\<close>

theorem start_leaves_nonregular_entries:
  "fst (td_metrics_start example_env fifo_world) = 0 \<and>
   root (snd (td_metrics_start example_env fifo_world)) =
     Some (Dir False [(''pipe'', File S_IFIFO False)])"
  by (simp add: fs_eval)

text \<open>
  With three descriptors left, a chain of eight nested directories stays in place: the fourth
  \<^verbatim>\<open>opendir\<close> fails with \<^verbatim>\<open>EMFILE\<close>, which is logged once, and no \<^verbatim>\<open>rmdir\<close> finds its directory
  empty. \<open>td_metrics_start\<close> returns 0 all the same.
\<close>

lemma start_leaves_deep_chain:
  "td_metrics_start tight_env chain_world =
     (0, chain_world\<lparr>td_metrics_path := Some ''/dev/shm/td3-42'',
                      logged := [EPRINTF Failed_to_open_directory EMFILE]\<rparr>)"
  by (simp add: fs_eval eval_nat_numeral)

subsection \<open>Stop\<close>

text \<open>
  Claim C4. \<open>td_metrics_stop\<close> is a total function of the state, so every call returns. With
  no path recorded it changes nothing. On a recorded path whose directory opens and is
  purgeable (and no allocation fails) it removes the directory and releases the path, and a
  second stop then changes nothing. After a failed start, one stop and two stops alike leave
  the path record and the file system as they are. In every case the path record is either
  released or left as it was.
\<close>

theorem stop_can_be_repeated:
  "(td_metrics_path w = None \<longrightarrow> td_metrics_stop env w = w) \<and>
   (td_metrics_path w = Some path \<and> root w = Some (Dir False es) \<and> (\<forall>f. \<not> enomem env f) \<and>
    opendir env (free_fds env) path (Dir False es) = Inr es \<and>
    purgeable_entries env (free_fds env - 1) path es \<longrightarrow>
      td_metrics_stop env w = w\<lparr>root := None, td_metrics_path := None\<rparr> \<and>
      td_metrics_stop env (td_metrics_stop env w) = td_metrics_stop env w) \<and>
   (fst (td_metrics_start env w) \<noteq> 0 \<longrightarrow>
      td_metrics_path (td_metrics_stop env (snd (td_metrics_start env w))) =
        td_metrics_path (snd (td_metrics_start env w)) \<and>
      root (td_metrics_stop env (snd (td_metrics_start env w))) = root w \<and>
      td_metrics_path (td_metrics_stop env (td_metrics_stop env (snd (td_metrics_start env w)))) =
        td_metrics_path (snd (td_metrics_start env w)) \<and>
      root (td_metrics_stop env (td_metrics_stop env (snd (td_metrics_start env w)))) = root w) \<and>
   (td_metrics_path (td_metrics_stop env w) = None \<or>
    td_metrics_path (td_metrics_stop env w) = td_metrics_path w)"
proof (intro conjI impI)
  show "td_metrics_stop env w = w" if "td_metrics_path w = None"
    using that by (simp add: td_metrics_stop_def)
  show "td_metrics_path (td_metrics_stop env w) = None \<or>
    td_metrics_path (td_metrics_stop env w) = td_metrics_path w"
    by (simp add: td_metrics_stop_def split: option.splits prod.splits)
next
  assume a: "td_metrics_path w = Some path \<and> root w = Some (Dir False es) \<and>
    (\<forall>f. \<not> enomem env f) \<and> opendir env (free_fds env) path (Dir False es) = Inr es \<and>
    purgeable_entries env (free_fds env - 1) path es"
  then have "purgeable env (free_fds env) path (Dir False es)" by simp
  from purge_purgeable(1) [OF _ this refl, of "logged w"] a obtain err
    where "empty_folder env (free_fds env) path (Dir False es) (logged w) =
      (err, Dir False [], logged w)"
    by blast
  with a show 1: "td_metrics_stop env w = w\<lparr>root := None, td_metrics_path := None\<rparr>"
    by (simp add: td_metrics_stop_def empty_folder_at_def rmdir_at_def)
  show "td_metrics_stop env (td_metrics_stop env w) = td_metrics_stop env w"
    unfolding 1 by (simp add: td_metrics_stop_def)
next
  assume f: "fst (td_metrics_start env w) \<noteq> 0"
  let ?w1 = "snd (td_metrics_start env w)"
  have once: "td_metrics_path (td_metrics_stop env v) = td_metrics_path v"
      "root (td_metrics_stop env v) = root v"
    if "td_metrics_path v = None \<or> root v = None" for v
    using that
    by (auto simp: td_metrics_stop_def empty_folder_at_def rmdir_at_def split: option.splits)
  from f have c: "root ?w1 = root w" "td_metrics_path ?w1 = None \<or> root ?w1 = None"
    by (auto simp: td_metrics_start_def mkdir_def Let_def split: option.splits sum.splits
        prod.splits if_splits)
  note 1 = once [OF c(2)]
  with c(2) have "td_metrics_path (td_metrics_stop env ?w1) = None \<or>
      root (td_metrics_stop env ?w1) = None" by simp
  note 2 = once [OF this]
  from 1 c(1) show "td_metrics_path (td_metrics_stop env ?w1) = td_metrics_path ?w1"
    and "root (td_metrics_stop env ?w1) = root w" by simp_all
  from 1 2 c(1)
  show "td_metrics_path (td_metrics_stop env (td_metrics_stop env ?w1)) = td_metrics_path ?w1"
    and "root (td_metrics_stop env (td_metrics_stop env ?w1)) = root w" by simp_all
qed

theorem stop_can_be_repeated_witness:
  "td_metrics_stop example_env fresh_world = fresh_world \<and>
   td_metrics_stop example_env started_world =
     started_world\<lparr>root := None, td_metrics_path := None\<rparr> \<and>
   td_metrics_stop example_env (td_metrics_stop example_env started_world) =
     td_metrics_stop example_env started_world \<and>
   fst (td_metrics_start refusing_env fresh_world) = - 1 \<and>
   td_metrics_path (td_metrics_stop refusing_env (snd (td_metrics_start refusing_env fresh_world))) =
     Some ''/dev/shm/td3-42'' \<and>
   root (td_metrics_stop refusing_env (snd (td_metrics_start refusing_env fresh_world))) = None \<and>
   td_metrics_path (td_metrics_stop refusing_env
     (td_metrics_stop refusing_env (snd (td_metrics_start refusing_env fresh_world)))) =
     Some ''/dev/shm/td3-42'' \<and>
   root (td_metrics_stop refusing_env
     (td_metrics_stop refusing_env (snd (td_metrics_start refusing_env fresh_world)))) = None"
proof -
  have 1: "td_metrics_path fresh_world = None" "root fresh_world = None"
    by (simp_all add: fresh_world_def)
  have 2: "td_metrics_path started_world = Some ''/dev/shm/td3-42''"
    "root started_world = Some (Dir False stale_entries)"
    by (simp_all add: started_world_def)
  have 3: "purgeable_entries example_env (free_fds example_env - 1) ''/dev/shm/td3-42'' stale_entries"
    "opendir example_env (free_fds example_env) ''/dev/shm/td3-42'' (Dir False stale_entries) =
       Inr stale_entries"
    by (simp_all add: stale_entries_def marker_def S_IFREG_def example_env_def)
  have 4: "\<forall>f. \<not> enomem example_env f" by (simp add: example_env_def)
  have 5: "td_metrics_start refusing_env fresh_world =
      (- 1, fresh_world\<lparr>td_metrics_path := Some ''/dev/shm/td3-42'',
              logged := [EPRINTF Failed_to_create_folder (- 1)]\<rparr>)"
    by (simp add: td_metrics_start_def mkdir_def refusing_env_def example_env_def fresh_world_def
        Let_def EEXIST_def EACCES_def)
  from stop_can_be_repeated [where w = fresh_world and env = example_env] 1
  have a: "td_metrics_stop example_env fresh_world = fresh_world" by simp
  from stop_can_be_repeated [where w = started_world and path = "''/dev/shm/td3-42''"
      and es = stale_entries and env = example_env]
    2 3 4
  have b: "td_metrics_stop example_env started_world =
      started_world\<lparr>root := None, td_metrics_path := None\<rparr>"
    "td_metrics_stop example_env (td_metrics_stop example_env started_world) =
      td_metrics_stop example_env started_world"
    by blast+
  from stop_can_be_repeated [where w = fresh_world and env = refusing_env] 5 1
  have d: "td_metrics_path (td_metrics_stop refusing_env (snd (td_metrics_start refusing_env fresh_world)))
      = Some ''/dev/shm/td3-42''"
    "root (td_metrics_stop refusing_env (snd (td_metrics_start refusing_env fresh_world))) = None"
    "td_metrics_path (td_metrics_stop refusing_env
       (td_metrics_stop refusing_env (snd (td_metrics_start refusing_env fresh_world)))) =
       Some ''/dev/shm/td3-42''"
    "root (td_metrics_stop refusing_env
       (td_metrics_stop refusing_env (snd (td_metrics_start refusing_env fresh_world)))) = None"
    by simp_all
  from a b d 5 show ?thesis by simp
qed

text \<open>
  A stop that cannot remove the directory keeps the path record, and the next stop tries
  again: on a root that holds a FIFO each stop logs the failed \<^verbatim>\<open>opendir\<close> of the FIFO and the
  failed \<^verbatim>\<open>rmdir\<close> of the root, so two stops leave a longer log than one. Neither call fails.
\<close>

lemma stop_retries_unremovable_root:
  "td_metrics_stop example_env (snd (td_metrics_start example_env fifo_world)) =
     fifo_world\<lparr>td_metrics_path := Some ''/dev/shm/td3-42'',
       logged := [EPRINTF Failed_to_open_directory ENOTDIR,
                  EPRINTF Failed_to_open_directory ENOTDIR,
                  EPRINTF Failed_to_delete_folder ENOTEMPTY]\<rparr> \<and>
   td_metrics_stop example_env
       (td_metrics_stop example_env (snd (td_metrics_start example_env fifo_world))) \<noteq>
     td_metrics_stop example_env (snd (td_metrics_start example_env fifo_world))"
  by (simp add: fs_eval)

end
